theory Spec2Isabelle
  imports Main "HOL-Library.Sublist" "HOL-Library.AList" "HOL-Library.List_Lexorder"
begin

section \<open>Python strings and the text codec\<close>

text \<open>
  A Python \<^verbatim>\<open>str\<close> is a sequence of Unicode code points, so \<^verbatim>\<open>len\<close> counts code
  points.  A file holds bytes.  \<^verbatim>\<open>Path.write_text(content, encoding="utf-8")\<close> encodes
  with the strict UTF-8 codec (a lone surrogate raises \<^verbatim>\<open>UnicodeEncodeError\<close>) and
  \<^verbatim>\<open>Path.read_text(encoding="utf-8")\<close> decodes strictly and, being text mode with
  \<^verbatim>\<open>newline=None\<close>, translates \<^verbatim>\<open>\r\n\<close> and \<^verbatim>\<open>\r\<close> to \<^verbatim>\<open>\n\<close>.  On writing, POSIX text mode
  leaves line ends as they are.
\<close>

type_synonym pystr = "nat list"
type_synonym bytes = "nat list"

definition lit :: "string \<Rightarrow> pystr" where
  "lit s = map of_char s"

definition is_code_point :: "nat \<Rightarrow> bool" where
  "is_code_point c \<longleftrightarrow> c < 0x110000"

definition is_surrogate :: "nat \<Rightarrow> bool" where
  "is_surrogate c \<longleftrightarrow> 0xD800 \<le> c \<and> c < 0xE000"

definition encode_char :: "nat \<Rightarrow> bytes option" where
  "encode_char c =
     (if c < 0x80 then Some [c]
      else if c < 0x800 then Some [0xC0 + c div 64, 0x80 + c mod 64]
      else if c < 0x10000 then
        (if is_surrogate c then None
         else Some [0xE0 + c div 4096, 0x80 + (c div 64) mod 64, 0x80 + c mod 64])
      else if c < 0x110000 then
        Some [0xF0 + c div 262144, 0x80 + (c div 4096) mod 64,
              0x80 + (c div 64) mod 64, 0x80 + c mod 64]
      else None)"

fun utf8_encode :: "pystr \<Rightarrow> bytes option" where
  "utf8_encode [] = Some []"
| "utf8_encode (c # cs) =
     (case encode_char c of
        None \<Rightarrow> None
      | Some bs \<Rightarrow> (case utf8_encode cs of None \<Rightarrow> None | Some r \<Rightarrow> Some (bs @ r)))"

definition is_cont :: "nat \<Rightarrow> bool" where
  "is_cont b \<longleftrightarrow> 0x80 \<le> b \<and> b < 0xC0"

fun utf8_decode :: "bytes \<Rightarrow> pystr option" where
  "utf8_decode [] = Some []"
| "utf8_decode (b # bs) =
     (if b < 0x80 then map_option ((#) b) (utf8_decode bs)
      else if 0xC2 \<le> b \<and> b < 0xE0 then
        (case bs of
           b1 # r \<Rightarrow>
             if is_cont b1
             then map_option ((#) ((b - 0xC0) * 64 + (b1 - 0x80))) (utf8_decode r)
             else None
         | _ \<Rightarrow> None)
      else if 0xE0 \<le> b \<and> b < 0xF0 then
        (case bs of
           b1 # b2 # r \<Rightarrow>
             (let c = (b - 0xE0) * 4096 + (b1 - 0x80) * 64 + (b2 - 0x80)
              in if is_cont b1 \<and> is_cont b2 \<and> 0x800 \<le> c \<and> \<not> is_surrogate c
                 then map_option ((#) c) (utf8_decode r)
                 else None)
         | _ \<Rightarrow> None)
      else if 0xF0 \<le> b \<and> b < 0xF5 then
        (case bs of
           b1 # b2 # b3 # r \<Rightarrow>
             (let c = (b - 0xF0) * 262144 + (b1 - 0x80) * 4096 + (b2 - 0x80) * 64 + (b3 - 0x80)
              in if is_cont b1 \<and> is_cont b2 \<and> is_cont b3 \<and> 0x10000 \<le> c \<and> c < 0x110000
                 then map_option ((#) c) (utf8_decode r)
                 else None)
         | _ \<Rightarrow> None)
      else None)"

text \<open>Universal newlines: the flag says that the previous character was a carriage return.\<close>

primrec translate_newlines :: "bool \<Rightarrow> pystr \<Rightarrow> pystr" where
  "translate_newlines after_cr [] = []"
| "translate_newlines after_cr (c # cs) =
     (if c = 13 then 10 # translate_newlines True cs
      else if c = 10 \<and> after_cr then translate_newlines False cs
      else c # translate_newlines False cs)"

definition universal_newlines :: "pystr \<Rightarrow> pystr" where
  "universal_newlines s = translate_newlines False s"

subsection \<open>The string operations the tools use\<close>

text \<open>\<^verbatim>\<open>str(n)\<close> for a natural number, as an f-string renders \<^verbatim>\<open>{len(content)}\<close>.\<close>

fun str_nat :: "nat \<Rightarrow> pystr" where
  "str_nat n = (if n < 10 then [48 + n] else str_nat (n div 10) @ [48 + n mod 10])"

declare str_nat.simps [simp del]

text \<open>\<^verbatim>\<open>s.find(sub)\<close>: the lowest index at which \<^verbatim>\<open>sub\<close> occurs.\<close>

fun py_find :: "pystr \<Rightarrow> pystr \<Rightarrow> nat option" where
  "py_find sub [] = (if sub = [] then Some 0 else None)"
| "py_find sub (c # cs) =
     (if prefix sub (c # cs) then Some 0 else map_option Suc (py_find sub cs))"

text \<open>\<^verbatim>\<open>sub in s\<close>.\<close>

definition py_in :: "pystr \<Rightarrow> pystr \<Rightarrow> bool" where
  "py_in sub s \<longleftrightarrow> py_find sub s \<noteq> None"

text \<open>
  \<^verbatim>\<open>s.count(sub)\<close>: the number of non-overlapping occurrences, scanning from the left; for the
  empty \<^verbatim>\<open>sub\<close> it is \<^verbatim>\<open>len(s) + 1\<close>.
\<close>

primrec count_from :: "pystr \<Rightarrow> nat \<Rightarrow> pystr \<Rightarrow> nat" where
  "count_from sub skip [] = 0"
| "count_from sub skip (c # cs) =
     (if 0 < skip then count_from sub (skip - 1) cs
      else if prefix sub (c # cs) then Suc (count_from sub (length sub - 1) cs)
      else count_from sub 0 cs)"

definition py_count :: "pystr \<Rightarrow> pystr \<Rightarrow> nat" where
  "py_count sub s = (if sub = [] then length s + 1 else count_from sub 0 s)"

text \<open>\<^verbatim>\<open>s.replace(old, new, 1)\<close>: the first occurrence replaced, if there is one.\<close>

definition py_replace1 :: "pystr \<Rightarrow> pystr \<Rightarrow> pystr \<Rightarrow> pystr" where
  "py_replace1 old new s =
     (case py_find old s of
        None \<Rightarrow> s
      | Some i \<Rightarrow> take i s @ new @ drop (i + length old) s)"

text \<open>\<^verbatim>\<open>s.split(sep)\<close> for a one-character separator.\<close>

fun py_split :: "nat \<Rightarrow> pystr \<Rightarrow> pystr list" where
  "py_split sep [] = [[]]"
| "py_split sep (c # cs) =
     (if c = sep then [] # py_split sep cs
      else (case py_split sep cs of
              w # ws \<Rightarrow> (c # w) # ws
            | [] \<Rightarrow> [[c]]))"

text \<open>\<^verbatim>\<open>sep.join(xs)\<close>.\<close>

fun py_join :: "pystr \<Rightarrow> pystr list \<Rightarrow> pystr" where
  "py_join sep [] = []"
| "py_join sep [x] = x"
| "py_join sep (x # y # ys) = x @ sep @ py_join sep (y # ys)"

text \<open>\<^verbatim>\<open>s.rstrip(ch)\<close> for one character.\<close>

definition py_rstrip :: "nat \<Rightarrow> pystr \<Rightarrow> pystr" where
  "py_rstrip ch s = rev (dropWhile (\<lambda>c. c = ch) (rev s))"

section \<open>Paths: the lexical layer of pathlib\<close>

text \<open>
  A \<^verbatim>\<open>PosixPath\<close> is an anchor (empty for a relative path, \<^verbatim>\<open>/\<close>, or \<^verbatim>\<open>//\<close> when the string
  starts with exactly two slashes) and the list of its components.  Parsing drops empty
  components and \<^verbatim>\<open>.\<close>, and keeps \<^verbatim>\<open>..\<close>.
\<close>

record ppath =
  anchor :: pystr
  parts :: "pystr list"

definition Path :: "pystr \<Rightarrow> ppath" where
  "Path s =
     \<lparr> anchor =
         (if prefix (lit ''/'') s
          then (if prefix (lit ''//'') s \<and> \<not> prefix (lit ''///'') s then lit ''//'' else lit ''/'')
          else []),
       parts = filter (\<lambda>x. x \<noteq> [] \<and> x \<noteq> lit ''.'') (py_split 47 s) \<rparr>"

text \<open>\<^verbatim>\<open>str(p)\<close>.\<close>

definition str_path :: "ppath \<Rightarrow> pystr" where
  "str_path p =
     (if anchor p = [] \<and> parts p = [] then lit ''.''
      else anchor p @ py_join (lit ''/'') (parts p))"

text \<open>\<^verbatim>\<open>p.name\<close>, \<^verbatim>\<open>p.parent\<close> and \<^verbatim>\<open>p / s\<close>.\<close>

definition name :: "ppath \<Rightarrow> pystr" where
  "name p = (if parts p = [] then [] else last (parts p))"

definition parent :: "ppath \<Rightarrow> ppath" where
  "parent p = (if parts p = [] then p else p\<lparr>parts := butlast (parts p)\<rparr>)"

definition joinpath :: "ppath \<Rightarrow> pystr \<Rightarrow> ppath" where
  "joinpath p s =
     (let q = Path s in if anchor q \<noteq> [] then q else p\<lparr>parts := parts p @ parts q\<rparr>)"


section \<open>Exceptions\<close>

datatype errno =
  ENOENT | ENOTDIR | EISDIR | EEXIST | EACCES | EINVAL | EBUSY | ENOTEMPTY | ENAMETOOLONG

text \<open>
  \<^verbatim>\<open>OSError\<close> carries its errno and file name; Python picks the subclass by the errno
  (\<^verbatim>\<open>ENOENT\<close> is \<^verbatim>\<open>FileNotFoundError\<close>, \<^verbatim>\<open>EACCES\<close> is \<^verbatim>\<open>PermissionError\<close>, \<^verbatim>\<open>EEXIST\<close> is
  \<^verbatim>\<open>FileExistsError\<close>).  \<^verbatim>\<open>ShutilError\<close> is \<^verbatim>\<open>shutil.Error\<close>, a subclass of \<^verbatim>\<open>OSError\<close>.
  \<^verbatim>\<open>ValueError\<close> is what a path with a NUL character raises (``embedded null byte''), and
  the two Unicode errors are subclasses of it.  All of them derive from \<^verbatim>\<open>Exception\<close>.
\<close>

datatype exn =
    OSError errno pystr
  | ShutilError
  | ValueError
  | UnicodeEncodeError
  | UnicodeDecodeError
  | RuntimeError
  | RecursionError

fun is_PermissionError :: "exn \<Rightarrow> bool" where
  "is_PermissionError (OSError e f) = (e = EACCES)"
| "is_PermissionError _ = False"

fun is_FileNotFoundError :: "exn \<Rightarrow> bool" where
  "is_FileNotFoundError (OSError e f) = (e = ENOENT)"
| "is_FileNotFoundError _ = False"

fun is_FileExistsError :: "exn \<Rightarrow> bool" where
  "is_FileExistsError (OSError e f) = (e = EEXIST)"
| "is_FileExistsError _ = False"

fun is_OSError :: "exn \<Rightarrow> bool" where
  "is_OSError (OSError e f) = True"
| "is_OSError ShutilError = True"
| "is_OSError _ = False"

fun is_ValueError :: "exn \<Rightarrow> bool" where
  "is_ValueError ValueError = True"
| "is_ValueError UnicodeEncodeError = True"
| "is_ValueError UnicodeDecodeError = True"
| "is_ValueError _ = False"

fun is_Exception :: "exn \<Rightarrow> bool" where
  "is_Exception _ = True"

section \<open>The file system\<close>

text \<open>
  The model is a POSIX file system as a Linux process sees it through Python 3.11: a tree
  of directories, regular files and null devices on one device, without symbolic or hard
  links, with room left on the device and in the tables of the process, and changed by
  nobody else during a call.

  Every directory and every regular file carries the permissions that hold for the process,
  which owns what it creates: \<open>may_read\<close>, \<open>may_write\<close> and, for a directory, \<open>may_search\<close>
  (the bits \<^verbatim>\<open>r\<close>, \<^verbatim>\<open>w\<close> and \<^verbatim>\<open>x\<close>).  A \<open>Device\<close> behaves as \<^verbatim>\<open>/dev/null\<close>: it is neither a
  regular file nor a directory, reading it gives nothing and what is written to it is lost.

  The names in the tree are the byte strings the file system stores, taken to be valid file
  names; a place is the list of the names from the root.  The environment of a call is the
  tree, the working directory (a place), the home directories by user name (the empty name is
  the current user), the text Python prints for an exception (\<^verbatim>\<open>str(e)\<close>), the number of nested
  calls the interpreter's recursion limit still allows below the first call of a library
  function, and the permissions a new directory gets (\<^verbatim>\<open>0o777\<close> without the bits of the
  umask; a new file gets the same without \<^verbatim>\<open>x\<close>).
\<close>

datatype mode = Mode (may_read: bool) (may_write: bool) (may_search: bool)

abbreviation rwx :: mode where
  "rwx \<equiv> Mode True True True"

abbreviation rw :: mode where
  "rw \<equiv> Mode True True False"

datatype node = File mode bytes | Dir mode "(bytes \<times> node) list" | Device

type_synonym place = "bytes list"

record env =
  root :: node
  cwd :: place
  homes :: "pystr \<Rightarrow> pystr option"
  str_exn :: "exn \<Rightarrow> pystr"
  recursion_limit :: nat
  dir_mode :: mode

type_synonym 'a result = "(exn + 'a) \<times> env"

definition file_mode :: "env \<Rightarrow> mode" where
  "file_mode env = Mode (may_read (dir_mode env)) (may_write (dir_mode env)) False"

fun lookup :: "node \<Rightarrow> place \<Rightarrow> node option" where
  "lookup n [] = Some n"
| "lookup (Dir m es) (c # cs) = (case map_of es c of None \<Rightarrow> None | Some n \<Rightarrow> lookup n cs)"
| "lookup (File m b) (c # cs) = None"
| "lookup Device (c # cs) = None"

text \<open>
  \<open>store t p v\<close> puts the subtree \<open>v\<close> at \<open>p\<close>, or removes what is there when \<open>v\<close> is
  \<open>None\<close>; nothing happens unless the parent of \<open>p\<close> is a directory.
\<close>

fun store :: "node \<Rightarrow> place \<Rightarrow> node option \<Rightarrow> node" where
  "store n [] v = (case v of None \<Rightarrow> n | Some x \<Rightarrow> x)"
| "store (Dir m es) [c] v =
     Dir m (case v of None \<Rightarrow> AList.delete c es | Some x \<Rightarrow> AList.update c x es)"
| "store (Dir m es) (c # d # ds) v =
     (case map_of es c of
        None \<Rightarrow> Dir m es
      | Some n \<Rightarrow> Dir m (AList.update c (store n (d # ds) v) es))"
| "store (File m b) (c # cs) v = File m b"
| "store Device (c # cs) v = Device"

subsection \<open>From a path to a place\<close>

text \<open>
  A path goes to the operating system as the bytes of \<^verbatim>\<open>os.fsencode(str(p))\<close>: UTF-8 with the
  error handler \<^verbatim>\<open>surrogateescape\<close>, under which the code points U+DC80 to U+DCFF stand for
  the bytes 128 to 255 and every other surrogate raises \<^verbatim>\<open>UnicodeEncodeError\<close>.  Python then
  refuses a NUL with \<^verbatim>\<open>ValueError\<close>, and Linux refuses a string of \<^verbatim>\<open>PATH_MAX\<close> bytes or more
  and a component of more than \<^verbatim>\<open>NAME_MAX\<close> bytes with \<^verbatim>\<open>ENAMETOOLONG\<close>.  The components the
  system walks are those of the path, encoded.  \<^verbatim>\<open>os.fsdecode\<close> is the way back, for the names
  a directory lists.
\<close>

definition NAME_MAX :: nat where
  "NAME_MAX = 255"

definition PATH_MAX :: nat where
  "PATH_MAX = 4096"

definition fsencode_char :: "nat \<Rightarrow> bytes option" where
  "fsencode_char c = (if 0xDC80 \<le> c \<and> c < 0xDD00 then Some [c - 0xDC00] else encode_char c)"

fun fsencode :: "pystr \<Rightarrow> bytes option" where
  "fsencode [] = Some []"
| "fsencode (c # cs) =
     (case fsencode_char c of
        None \<Rightarrow> None
      | Some bs \<Rightarrow> (case fsencode cs of None \<Rightarrow> None | Some r \<Rightarrow> Some (bs @ r)))"

definition fsenc :: "pystr \<Rightarrow> bytes" where
  "fsenc s = (case fsencode s of None \<Rightarrow> [] | Some b \<Rightarrow> b)"

fun fsdecode :: "bytes \<Rightarrow> pystr" where
  "fsdecode [] = []"
| "fsdecode (b # bs) =
     (if b < 0x80 then b # fsdecode bs
      else if 0xC2 \<le> b \<and> b < 0xE0 then
        (case bs of
           b1 # r \<Rightarrow>
             if is_cont b1 then ((b - 0xC0) * 64 + (b1 - 0x80)) # fsdecode r
             else (0xDC00 + b) # fsdecode bs
         | [] \<Rightarrow> [0xDC00 + b])
      else if 0xE0 \<le> b \<and> b < 0xF0 then
        (case bs of
           b1 # b2 # r \<Rightarrow>
             (let c = (b - 0xE0) * 4096 + (b1 - 0x80) * 64 + (b2 - 0x80)
              in if is_cont b1 \<and> is_cont b2 \<and> 0x800 \<le> c \<and> \<not> is_surrogate c
                 then c # fsdecode r
                 else (0xDC00 + b) # fsdecode bs)
         | _ \<Rightarrow> (0xDC00 + b) # fsdecode bs)
      else if 0xF0 \<le> b \<and> b < 0xF5 then
        (case bs of
           b1 # b2 # b3 # r \<Rightarrow>
             (let c = (b - 0xF0) * 262144 + (b1 - 0x80) * 4096 + (b2 - 0x80) * 64 + (b3 - 0x80)
              in if is_cont b1 \<and> is_cont b2 \<and> is_cont b3 \<and> 0x10000 \<le> c \<and> c < 0x110000
                 then c # fsdecode r
                 else (0xDC00 + b) # fsdecode bs)
         | _ \<Rightarrow> (0xDC00 + b) # fsdecode bs)
      else (0xDC00 + b) # fsdecode bs)"

definition os_path :: "ppath \<Rightarrow> exn + bytes list" where
  "os_path p =
     (case fsencode (str_path p) of
        None \<Rightarrow> Inl UnicodeEncodeError
      | Some b \<Rightarrow>
          if 0 \<in> set b then Inl ValueError
          else if PATH_MAX \<le> length b then Inl (OSError ENAMETOOLONG (str_path p))
          else Inr (map fsenc (parts p)))"

text \<open>
  Path resolution: each component is looked up in a directory that must exist and that the
  process may search; \<^verbatim>\<open>..\<close> steps to the parent (the root is its own parent).  The last
  component itself need not exist.
\<close>

fun walk :: "node \<Rightarrow> place \<Rightarrow> bytes list \<Rightarrow> errno + place" where
  "walk t cur [] = Inr cur"
| "walk t cur (x # xs) =
     (case lookup t cur of
        None \<Rightarrow> Inl ENOENT
      | Some (File m b) \<Rightarrow> Inl ENOTDIR
      | Some Device \<Rightarrow> Inl ENOTDIR
      | Some (Dir m es) \<Rightarrow>
          if \<not> may_search m then Inl EACCES
          else if x = lit ''..'' then walk t (butlast cur) xs
          else if NAME_MAX < length x then Inl ENAMETOOLONG
          else walk t (cur @ [x]) xs)"

definition resolve :: "env \<Rightarrow> ppath \<Rightarrow> exn + place" where
  "resolve env p =
     (case os_path p of
        Inl x \<Rightarrow> Inl x
      | Inr comps \<Rightarrow>
          (case walk (root env) (if anchor p = [] then cwd env else []) comps of
             Inl e \<Rightarrow> Inl (OSError e (str_path p))
           | Inr c \<Rightarrow> Inr c))"

definition stat :: "env \<Rightarrow> ppath \<Rightarrow> exn + node" where
  "stat env p =
     (case resolve env p of
        Inl x \<Rightarrow> Inl x
      | Inr c \<Rightarrow>
          (case lookup (root env) c of
             None \<Rightarrow> Inl (OSError ENOENT (str_path p))
           | Some n \<Rightarrow> Inr n))"

text \<open>
  \<^verbatim>\<open>Path.exists\<close>, \<^verbatim>\<open>is_file\<close> and \<^verbatim>\<open>is_dir\<close> answer \<^verbatim>\<open>False\<close> when \<^verbatim>\<open>stat\<close> fails with
  \<^verbatim>\<open>ENOENT\<close> or \<^verbatim>\<open>ENOTDIR\<close> or with a \<^verbatim>\<open>ValueError\<close>; any other failure of \<^verbatim>\<open>stat\<close> is raised.
\<close>

fun answers_False :: "exn \<Rightarrow> bool" where
  "answers_False (OSError e f) = (e = ENOENT \<or> e = ENOTDIR)"
| "answers_False x = is_ValueError x"

definition exists :: "env \<Rightarrow> ppath \<Rightarrow> exn + bool" where
  "exists env p =
     (case stat env p of
        Inl x \<Rightarrow> if answers_False x then Inr False else Inl x
      | Inr n \<Rightarrow> Inr True)"

definition is_file :: "env \<Rightarrow> ppath \<Rightarrow> exn + bool" where
  "is_file env p =
     (case stat env p of
        Inl x \<Rightarrow> if answers_False x then Inr False else Inl x
      | Inr (File m b) \<Rightarrow> Inr True
      | Inr n \<Rightarrow> Inr False)"

definition is_dir :: "env \<Rightarrow> ppath \<Rightarrow> exn + bool" where
  "is_dir env p =
     (case stat env p of
        Inl x \<Rightarrow> if answers_False x then Inr False else Inl x
      | Inr (Dir m es) \<Rightarrow> Inr True
      | Inr n \<Rightarrow> Inr False)"

text \<open>
  \<^verbatim>\<open>os.path.exists\<close> and \<^verbatim>\<open>os.path.isdir\<close>, which \<^verbatim>\<open>shutil\<close> uses, answer \<^verbatim>\<open>False\<close> on every
  failure of \<^verbatim>\<open>stat\<close>.  \<^verbatim>\<open>shutil._samefile\<close> answers \<^verbatim>\<open>False\<close> on an \<^verbatim>\<open>OSError\<close> only.
\<close>

definition path_exists :: "env \<Rightarrow> ppath \<Rightarrow> bool" where
  "path_exists env p = (case stat env p of Inl x \<Rightarrow> False | Inr n \<Rightarrow> True)"

definition path_isdir :: "env \<Rightarrow> ppath \<Rightarrow> bool" where
  "path_isdir env p = (case stat env p of Inr (Dir m es) \<Rightarrow> True | _ \<Rightarrow> False)"

definition samefile :: "env \<Rightarrow> ppath \<Rightarrow> ppath \<Rightarrow> exn + bool" where
  "samefile env p q =
     (case stat env p of
        Inl x \<Rightarrow> if is_OSError x then Inr False else Inl x
      | Inr n \<Rightarrow>
          (case stat env q of
             Inl x \<Rightarrow> if is_OSError x then Inr False else Inl x
           | Inr n' \<Rightarrow> Inr (resolve env p = resolve env q)))"

text \<open>\<^verbatim>\<open>Path.expanduser\<close>, with \<^verbatim>\<open>os.path.expanduser\<close> on the first component.\<close>

definition expanduser :: "env \<Rightarrow> ppath \<Rightarrow> exn + ppath" where
  "expanduser env p =
     (if anchor p = [] \<and> parts p \<noteq> [] \<and> prefix (lit ''~'') (hd (parts p)) then
        (case homes env (tl (hd (parts p))) of
           None \<Rightarrow> Inl RuntimeError
         | Some h \<Rightarrow>
             (let homedir = (if py_rstrip 47 h = [] then lit ''/'' else py_rstrip 47 h)
              in if prefix (lit ''~'') homedir then Inl RuntimeError
                 else Inr ((Path homedir)\<lparr>parts := parts (Path homedir) @ tl (parts p)\<rparr>)))
      else Inr p)"

subsection \<open>Reading and writing\<close>

text \<open>
  \<^verbatim>\<open>open(p, "rb")\<close> and reading: a regular file must be readable; a directory is refused, with
  \<^verbatim>\<open>EACCES\<close> when it is not readable and with \<^verbatim>\<open>EISDIR\<close> otherwise.
\<close>

definition read_bytes :: "env \<Rightarrow> ppath \<Rightarrow> exn + bytes" where
  "read_bytes env p =
     (case resolve env p of
        Inl x \<Rightarrow> Inl x
      | Inr c \<Rightarrow>
          (case lookup (root env) c of
             None \<Rightarrow> Inl (OSError ENOENT (str_path p))
           | Some (Dir m es) \<Rightarrow> Inl (OSError (if may_read m then EISDIR else EACCES) (str_path p))
           | Some (File m b) \<Rightarrow> if may_read m then Inr b else Inl (OSError EACCES (str_path p))
           | Some Device \<Rightarrow> Inr []))"

definition read_text :: "env \<Rightarrow> ppath \<Rightarrow> exn + pystr" where
  "read_text env p =
     (case read_bytes env p of
        Inl e \<Rightarrow> Inl e
      | Inr b \<Rightarrow>
          (case utf8_decode b of
             None \<Rightarrow> Inl UnicodeDecodeError
           | Some s \<Rightarrow> Inr (universal_newlines s)))"

text \<open>
  \<^verbatim>\<open>open(p, "w")\<close>: a directory is refused with \<^verbatim>\<open>EISDIR\<close> whatever its permissions; an existing
  file must be writable and is truncated; a missing file is created, with the permissions the
  umask leaves, in a directory that must be writable.  \<open>put_bytes\<close> is the write through the
  open file, which needs no permission any more.  The text is encoded after the file was
  opened, so a string that cannot be encoded leaves an empty file behind.
\<close>

definition open_w :: "env \<Rightarrow> ppath \<Rightarrow> (exn + place) \<times> env" where
  "open_w env p =
     (case resolve env p of
        Inl x \<Rightarrow> (Inl x, env)
      | Inr c \<Rightarrow>
          (case lookup (root env) c of
             Some (Dir m es) \<Rightarrow> (Inl (OSError EISDIR (str_path p)), env)
           | Some (File m b) \<Rightarrow>
               if may_write m then (Inr c, env\<lparr>root := store (root env) c (Some (File m []))\<rparr>)
               else (Inl (OSError EACCES (str_path p)), env)
           | Some Device \<Rightarrow> (Inr c, env)
           | None \<Rightarrow>
               (case lookup (root env) (butlast c) of
                  Some (Dir m es) \<Rightarrow>
                    if parts p = [] then (Inl (OSError ENOENT (str_path p)), env)
                    else if may_write m
                    then (Inr c, env\<lparr>root := store (root env) c (Some (File (file_mode env) []))\<rparr>)
                    else (Inl (OSError EACCES (str_path p)), env)
                | _ \<Rightarrow> (Inl (OSError ENOENT (str_path p)), env))))"

definition put_bytes :: "node \<Rightarrow> place \<Rightarrow> bytes \<Rightarrow> node" where
  "put_bytes t c b =
     (case lookup t c of
        Some (File m b0) \<Rightarrow> store t c (Some (File m b))
      | _ \<Rightarrow> t)"

definition write_text :: "env \<Rightarrow> ppath \<Rightarrow> pystr \<Rightarrow> nat result" where
  "write_text env p data =
     (case open_w env p of
        (Inl x, env1) \<Rightarrow> (Inl x, env1)
      | (Inr c, env1) \<Rightarrow>
          (case utf8_encode data of
             None \<Rightarrow> (Inl UnicodeEncodeError, env1)
           | Some b \<Rightarrow> (Inr (length data), env1\<lparr>root := put_bytes (root env1) c b\<rparr>)))"

subsection \<open>Creating directories\<close>

text \<open>
  \<^verbatim>\<open>os.mkdir\<close>: the path must not exist (\<^verbatim>\<open>EEXIST\<close> comes before any question of permission)
  and the directory it is made in must be writable.  A path without components that leads
  nowhere is a working directory that was removed, where nothing can be made.
\<close>

definition os_mkdir :: "env \<Rightarrow> ppath \<Rightarrow> exn + env" where
  "os_mkdir env p =
     (case resolve env p of
        Inl x \<Rightarrow> Inl x
      | Inr c \<Rightarrow>
          (case lookup (root env) c of
             Some n \<Rightarrow> Inl (OSError EEXIST (str_path p))
           | None \<Rightarrow>
               (case lookup (root env) (butlast c) of
                  Some (Dir m es) \<Rightarrow>
                    if parts p = [] then Inl (OSError ENOENT (str_path p))
                    else if may_write m
                    then Inr (env\<lparr>root := store (root env) c (Some (Dir (dir_mode env) []))\<rparr>)
                    else Inl (OSError EACCES (str_path p))
                | _ \<Rightarrow> Inl (OSError ENOENT (str_path p)))))"

text \<open>
  \<^verbatim>\<open>Path.mkdir(parents=False, exist_ok=True)\<close> and \<^verbatim>\<open>Path.mkdir(parents=True, exist_ok=True)\<close>:
  pathlib tries \<^verbatim>\<open>os.mkdir\<close>; on \<^verbatim>\<open>FileNotFoundError\<close> it makes the parent first, in a nested
  call, and tries again; on any other \<^verbatim>\<open>OSError\<close> it is content when the path is a directory.
  The first argument is the number of nested calls that are still possible.
\<close>

definition mkdir_exist_ok :: "env \<Rightarrow> ppath \<Rightarrow> unit result" where
  "mkdir_exist_ok env p =
     (case os_mkdir env p of
        Inr env1 \<Rightarrow> (Inr (), env1)
      | Inl x \<Rightarrow>
          if is_FileNotFoundError x then (Inl x, env)
          else if is_OSError x then
            (case is_dir env p of
               Inl y \<Rightarrow> (Inl y, env)
             | Inr d \<Rightarrow> if d then (Inr (), env) else (Inl x, env))
          else (Inl x, env))"

fun mkdir_parents :: "nat \<Rightarrow> env \<Rightarrow> ppath \<Rightarrow> unit result" where
  "mkdir_parents k env p =
     (case os_mkdir env p of
        Inr env1 \<Rightarrow> (Inr (), env1)
      | Inl x \<Rightarrow>
          if is_FileNotFoundError x then
            (if parts p = [] then (Inl x, env)
             else (case k of
                     0 \<Rightarrow> (Inl RecursionError, env)
                   | Suc k' \<Rightarrow>
                       (case mkdir_parents k' env (parent p) of
                          (Inl y, env1) \<Rightarrow> (Inl y, env1)
                        | (Inr u, env1) \<Rightarrow> mkdir_exist_ok env1 p)))
          else if is_OSError x then
            (case is_dir env p of
               Inl y \<Rightarrow> (Inl y, env)
             | Inr d \<Rightarrow> if d then (Inr (), env) else (Inl x, env))
          else (Inl x, env))"

declare mkdir_parents.simps [simp del]

subsection \<open>Renaming and removing\<close>

text \<open>
  \<^verbatim>\<open>os.rename\<close>, in the order in which Linux finds fault: the two paths are walked; a path
  whose last component is \<^verbatim>\<open>.\<close> or \<^verbatim>\<open>..\<close> (or that has no component) is refused; the source
  must exist; a directory is not moved below itself, nor anything onto a directory it lies
  in; renaming to itself does nothing; the two directories concerned must be writable; an
  existing target is replaced by something of the same kind only; a directory that changes
  its parent must be writable itself; a directory replaces an empty directory only.  The
  working directory follows a directory that is moved.
\<close>

definition special_last :: "ppath \<Rightarrow> bool" where
  "special_last p \<longleftrightarrow> parts p = [] \<or> last (parts p) = lit ''..''"

definition may_change :: "node \<Rightarrow> place \<Rightarrow> bool" where
  "may_change t c = (case lookup t c of Some (Dir m es) \<Rightarrow> may_write m | _ \<Rightarrow> False)"

definition moved :: "env \<Rightarrow> place \<Rightarrow> place \<Rightarrow> node \<Rightarrow> env" where
  "moved env cs cd n =
     env\<lparr>root := store (store (root env) cs None) cd (Some n),
         cwd := (if prefix cs (cwd env) then cd @ drop (length cs) (cwd env) else cwd env)\<rparr>"

definition os_rename :: "env \<Rightarrow> ppath \<Rightarrow> ppath \<Rightarrow> exn + env" where
  "os_rename env src dst =
     (case resolve env src of
        Inl x \<Rightarrow> Inl x
      | Inr cs \<Rightarrow>
     (case resolve env dst of
        Inl x \<Rightarrow> Inl x
      | Inr cd \<Rightarrow>
          if special_last src \<or> special_last dst then Inl (OSError EBUSY (str_path src))
          else
     (case lookup (root env) cs of
        None \<Rightarrow> Inl (OSError ENOENT (str_path src))
      | Some n \<Rightarrow>
          if strict_prefix cs cd then Inl (OSError EINVAL (str_path src))
          else if strict_prefix cd cs then Inl (OSError ENOTEMPTY (str_path src))
          else if cs = cd then Inr env
          else if \<not> may_change (root env) (butlast cs) \<or> \<not> may_change (root env) (butlast cd)
          then Inl (OSError EACCES (str_path src))
          else
            (case (n, lookup (root env) cd) of
               (Dir m es, Some (Dir m' es')) \<Rightarrow>
                 if butlast cs \<noteq> butlast cd \<and> \<not> may_write m then Inl (OSError EACCES (str_path src))
                 else if es' \<noteq> [] then Inl (OSError ENOTEMPTY (str_path src))
                 else Inr (moved env cs cd n)
             | (Dir m es, Some n') \<Rightarrow> Inl (OSError ENOTDIR (str_path src))
             | (Dir m es, None) \<Rightarrow>
                 if butlast cs \<noteq> butlast cd \<and> \<not> may_write m then Inl (OSError EACCES (str_path src))
                 else Inr (moved env cs cd n)
             | (n, Some (Dir m' es')) \<Rightarrow> Inl (OSError EISDIR (str_path src))
             | (n, other) \<Rightarrow> Inr (moved env cs cd n)))))"

text \<open>
  \<^verbatim>\<open>os.unlink\<close> and \<^verbatim>\<open>os.rmdir\<close> need a writable directory around what they remove.
\<close>

definition unlink :: "env \<Rightarrow> ppath \<Rightarrow> unit result" where
  "unlink env p =
     (case resolve env p of
        Inl x \<Rightarrow> (Inl x, env)
      | Inr c \<Rightarrow>
          (case lookup (root env) c of
             None \<Rightarrow> (Inl (OSError ENOENT (str_path p)), env)
           | Some n \<Rightarrow>
               if special_last p then (Inl (OSError EISDIR (str_path p)), env)
               else if \<not> may_change (root env) (butlast c)
               then (Inl (OSError EACCES (str_path p)), env)
               else (case n of
                       Dir m es \<Rightarrow> (Inl (OSError EISDIR (str_path p)), env)
                     | _ \<Rightarrow> (Inr (), env\<lparr>root := store (root env) c None\<rparr>))))"

definition os_rmdir :: "env \<Rightarrow> ppath \<Rightarrow> unit result" where
  "os_rmdir env p =
     (case resolve env p of
        Inl x \<Rightarrow> (Inl x, env)
      | Inr c \<Rightarrow>
          if parts p = [] then (Inl (OSError (if anchor p = [] then EINVAL else EBUSY) (str_path p)), env)
          else if last (parts p) = lit ''..'' then (Inl (OSError ENOTEMPTY (str_path p)), env)
          else
            (case lookup (root env) c of
               None \<Rightarrow> (Inl (OSError ENOENT (str_path p)), env)
             | Some (Dir m es) \<Rightarrow>
                 if \<not> may_change (root env) (butlast c) then (Inl (OSError EACCES (str_path p)), env)
                 else if es \<noteq> [] then (Inl (OSError ENOTEMPTY (str_path p)), env)
                 else (Inr (), env\<lparr>root := store (root env) c None\<rparr>)
             | Some n \<Rightarrow> (Inl (OSError ENOTDIR (str_path p)), env)))"

text \<open>
  \<^verbatim>\<open>shutil.rmtree\<close> opens the directory, empties it entry by entry through the open directory
  (a nested call for each directory in it) and then removes it with \<^verbatim>\<open>os.rmdir\<close>; the first
  failure is raised and leaves what was not yet removed.
\<close>

fun rmtree_at :: "nat \<Rightarrow> node \<Rightarrow> place \<Rightarrow> (exn + unit) \<times> node"
  and rm_entries :: "nat \<Rightarrow> node \<Rightarrow> place \<Rightarrow> bytes list \<Rightarrow> (exn + unit) \<times> node"
where
  "rmtree_at 0 t c = (Inl RecursionError, t)"
| "rmtree_at (Suc k) t c =
     (case lookup t c of
        Some (Dir m es) \<Rightarrow> rm_entries k t c (remdups (map fst es))
      | _ \<Rightarrow> (Inr (), t))"
| "rm_entries k t c [] = (Inr (), t)"
| "rm_entries k t c (x # xs) =
     (case lookup t c of
        Some (Dir m es) \<Rightarrow>
          (case lookup t (c @ [x]) of
             None \<Rightarrow> rm_entries k t c xs
           | Some (Dir m' es') \<Rightarrow>
               if \<not> may_search m \<or> \<not> may_read m' then (Inl (OSError EACCES (fsdecode x)), t)
               else (case rmtree_at k t (c @ [x]) of
                       (Inl e, t1) \<Rightarrow> (Inl e, t1)
                     | (Inr u, t1) \<Rightarrow>
                         if may_write m then rm_entries k (store t1 (c @ [x]) None) c xs
                         else (Inl (OSError EACCES (fsdecode x)), t1))
           | Some n \<Rightarrow>
               if may_search m \<and> may_write m then rm_entries k (store t (c @ [x]) None) c xs
               else (Inl (OSError EACCES (fsdecode x)), t))
      | _ \<Rightarrow> (Inr (), t))"

definition rmtree :: "env \<Rightarrow> ppath \<Rightarrow> unit result" where
  "rmtree env p =
     (case resolve env p of
        Inl x \<Rightarrow> (Inl x, env)
      | Inr c \<Rightarrow>
          (case lookup (root env) c of
             None \<Rightarrow> (Inl (OSError ENOENT (str_path p)), env)
           | Some (Dir m es) \<Rightarrow>
               if \<not> may_read m then (Inl (OSError EACCES (str_path p)), env)
               else (case rm_entries (recursion_limit env) (root env) c (remdups (map fst es)) of
                       (Inl x, t) \<Rightarrow> (Inl x, env\<lparr>root := t\<rparr>)
                     | (Inr u, t) \<Rightarrow> os_rmdir (env\<lparr>root := t\<rparr>) p)
           | Some (File m b) \<Rightarrow>
               (Inl (OSError (if may_read m then ENOTDIR else EACCES) (str_path p)), env)
           | Some Device \<Rightarrow> (Inl (OSError ENOTDIR (str_path p)), env)))"

subsection \<open>Copying\<close>

text \<open>
  \<^verbatim>\<open>shutil.copy2\<close>: into the target when that is a directory; the source is opened for
  reading, then the target is created or truncated and gets the bytes and, by \<^verbatim>\<open>copystat\<close>,
  the permissions of the source.
\<close>

definition copy2 :: "env \<Rightarrow> ppath \<Rightarrow> ppath \<Rightarrow> unit result" where
  "copy2 env src dst =
     (let dst' = (if path_isdir env dst then joinpath dst (name src) else dst)
      in (case samefile env src dst' of
            Inl x \<Rightarrow> (Inl x, env)
          | Inr same \<Rightarrow>
              if same then (Inl ShutilError, env)
              else (case read_bytes env src of
                      Inl x \<Rightarrow> (Inl x, env)
                    | Inr b \<Rightarrow>
                        (case open_w env dst' of
                           (Inl x, env1) \<Rightarrow> (Inl x, env1)
                         | (Inr c, env1) \<Rightarrow>
                             (case (stat env src, lookup (root env1) c) of
                                (Inr (File m b0), Some (File m' b')) \<Rightarrow>
                                  (Inr (), env1\<lparr>root := store (root env1) c (Some (File m b))\<rparr>)
                              | (Inr n, Some (File m' b')) \<Rightarrow>
                                  (Inr (), env1\<lparr>root := store (root env1) c (Some (File rw b))\<rparr>)
                              | _ \<Rightarrow> (Inr (), env1))))))"

text \<open>
  \<^verbatim>\<open>shutil.copytree\<close>.  Each level lists the source directory (which must be readable), makes
  the target directory (which must not exist) and copies the entries one by one, reading
  the tree as it is at that moment; at the end \<^verbatim>\<open>copystat\<close> gives the target directory the
  permissions of the source.  An \<^verbatim>\<open>OSError\<close> on an entry is noted and the copy goes on, and
  \<^verbatim>\<open>shutil.Error\<close> is raised at the end when anything was noted.  Every directory in the source
  is a nested call, so the copy stops with \<^verbatim>\<open>RecursionError\<close> when the source is nested deeper
  than the interpreter allows.

  Below the first level the paths are the strings \<^verbatim>\<open>os.path.join(src, name)\<close> and
  \<^verbatim>\<open>os.path.join(dst, name)\<close>; what was walked to reach \<^verbatim>\<open>src\<close> and \<^verbatim>\<open>dst\<close> is as it was, so that
  only the length of the string, the directory around the entry and the entry itself can be
  at fault.  \<open>copytree_at\<close> and \<open>copy_entries\<close> answer \<open>Inr True\<close> when an \<^verbatim>\<open>OSError\<close> was noted.
\<close>

definition os_join :: "bytes \<Rightarrow> bytes \<Rightarrow> bytes" where
  "os_join a b = (if a = [] \<or> last a = 47 then a @ b else a @ [47] @ b)"

definition copystat :: "node \<Rightarrow> place \<Rightarrow> place \<Rightarrow> node" where
  "copystat t s d =
     (case (lookup t s, lookup t d) of
        (Some (Dir m es), Some (Dir m' es')) \<Rightarrow> store t d (Some (Dir m es'))
      | _ \<Rightarrow> t)"

definition copy_entry :: "node \<Rightarrow> bytes \<Rightarrow> place \<Rightarrow> bytes \<Rightarrow> place \<Rightarrow> bool \<times> node" where
  "copy_entry t ss s ds d =
     (case (lookup t (butlast s), lookup t (butlast d)) of
        (Some (Dir pm pes), Some (Dir qm qes)) \<Rightarrow>
          if PATH_MAX \<le> length ss \<or> \<not> may_search pm then (True, t)
          else
            (case (case lookup t s of
                     Some (File m b) \<Rightarrow> if may_read m then Some (File m b) else None
                   | Some Device \<Rightarrow> Some (File rw [])
                   | _ \<Rightarrow> None) of
               None \<Rightarrow> (True, t)
             | Some copy \<Rightarrow>
                 if PATH_MAX \<le> length ds \<or> \<not> may_search qm then (True, t)
                 else
                   (case lookup t d of
                      None \<Rightarrow> if may_write qm then (False, store t d (Some copy)) else (True, t)
                    | Some (File m' b') \<Rightarrow>
                        if may_write m' then (False, store t d (Some copy)) else (True, t)
                    | Some Device \<Rightarrow> (False, t)
                    | Some (Dir m' es') \<Rightarrow> (True, t)))
      | _ \<Rightarrow> (True, t))"

fun copytree_at ::
    "nat \<Rightarrow> mode \<Rightarrow> node \<Rightarrow> bytes \<Rightarrow> place \<Rightarrow> bytes \<Rightarrow> place \<Rightarrow> (exn + bool) \<times> node"
  and copy_entries ::
    "nat \<Rightarrow> mode \<Rightarrow> node \<Rightarrow> bytes \<Rightarrow> place \<Rightarrow> bytes \<Rightarrow> place \<Rightarrow> bytes list \<Rightarrow> bool
       \<Rightarrow> (exn + bool) \<times> node"
where
  "copytree_at 0 um t ss s ds d = (Inl RecursionError, t)"
| "copytree_at (Suc k) um t ss s ds d =
     (case (lookup t (butlast s), lookup t s) of
        (Some (Dir pm pes), Some (Dir m es)) \<Rightarrow>
          if PATH_MAX \<le> length ss \<or> \<not> may_search pm \<or> \<not> may_read m then (Inr True, t)
          else
            (case (lookup t (butlast d), lookup t d) of
               (Some (Dir qm qes), None) \<Rightarrow>
                 if PATH_MAX \<le> length ds \<or> \<not> may_search qm \<or> \<not> may_write qm then (Inr True, t)
                 else
                   (case copy_entries k um (store t d (Some (Dir um []))) ss s ds d
                           (remdups (map fst es)) False of
                      (Inl e, t1) \<Rightarrow> (Inl e, t1)
                    | (Inr errors, t1) \<Rightarrow> (Inr errors, copystat t1 s d))
             | _ \<Rightarrow> (Inr True, t))
      | _ \<Rightarrow> (Inr True, t))"
| "copy_entries k um t ss s ds d [] errors = (Inr errors, t)"
| "copy_entries k um t ss s ds d (x # xs) errors =
     (case lookup t (s @ [x]) of
        Some (Dir m es) \<Rightarrow>
          (case copytree_at k um t (os_join ss x) (s @ [x]) (os_join ds x) (d @ [x]) of
             (Inl e, t1) \<Rightarrow> (Inl e, t1)
           | (Inr noted, t1) \<Rightarrow> copy_entries k um t1 ss s ds d xs (errors \<or> noted))
      | _ \<Rightarrow>
          (case copy_entry t (os_join ss x) (s @ [x]) (os_join ds x) (d @ [x]) of
             (noted, t1) \<Rightarrow> copy_entries k um t1 ss s ds d xs (errors \<or> noted)))"

text \<open>
  The first level, with the exceptions as they reach the caller.  The tools call
  \<^verbatim>\<open>copytree\<close> only after the parent of the target was made, where \<^verbatim>\<open>os.makedirs(dst)\<close> is
  \<^verbatim>\<open>os.mkdir(dst)\<close>.
\<close>

definition copytree :: "env \<Rightarrow> ppath \<Rightarrow> ppath \<Rightarrow> unit result" where
  "copytree env src dst =
     (case resolve env src of
        Inl x \<Rightarrow> (Inl x, env)
      | Inr s \<Rightarrow>
          (case lookup (root env) s of
             None \<Rightarrow> (Inl (OSError ENOENT (str_path src)), env)
           | Some (Dir m es) \<Rightarrow>
               if \<not> may_read m then (Inl (OSError EACCES (str_path src)), env)
               else
                 (case os_mkdir env dst of
                    Inl x \<Rightarrow> (Inl x, env)
                  | Inr env1 \<Rightarrow>
                      (case resolve env dst of
                         Inl x \<Rightarrow> (Inl x, env1)
                       | Inr d \<Rightarrow>
                           (case copy_entries (recursion_limit env) (dir_mode env) (root env1)
                                   (fsenc (str_path src)) s (fsenc (str_path dst)) d
                                   (remdups (map fst es)) False of
                              (Inl e, t) \<Rightarrow> (Inl e, env1\<lparr>root := t\<rparr>)
                            | (Inr errors, t) \<Rightarrow>
                                (if errors then Inl ShutilError else Inr (),
                                 env1\<lparr>root := copystat t s d\<rparr>))))
           | Some n \<Rightarrow> (Inl (OSError ENOTDIR (str_path src)), env)))"

subsection \<open>Moving\<close>

text \<open>
  \<^verbatim>\<open>shutil.move\<close>: \<^verbatim>\<open>os.rename\<close>, and when that fails with an \<^verbatim>\<open>OSError\<close>, a copy followed by
  the removal of the source, unless a directory would be moved into itself.
  \<open>abspath\<close> is the textual normal form \<^verbatim>\<open>os.path.abspath\<close> gives, as its leading slashes and
  its components.
\<close>

definition abspath :: "env \<Rightarrow> ppath \<Rightarrow> pystr \<times> pystr list" where
  "abspath env p =
     (if anchor p = lit ''//'' then lit ''//'' else lit ''/'',
      foldl (\<lambda>cur x. if x = lit ''..'' then butlast cur else cur @ [x])
        (if anchor p = [] then map fsdecode (cwd env) else []) (parts p))"

definition destinsrc :: "env \<Rightarrow> ppath \<Rightarrow> ppath \<Rightarrow> bool" where
  "destinsrc env src dst \<longleftrightarrow>
     fst (abspath env src) = fst (abspath env dst)
     \<and> prefix (snd (abspath env src)) (snd (abspath env dst))"

definition move_to :: "env \<Rightarrow> ppath \<Rightarrow> ppath \<Rightarrow> ppath \<Rightarrow> unit result" where
  "move_to env src dst real_dst =
     (case os_rename env src real_dst of
        Inr env1 \<Rightarrow> (Inr (), env1)
      | Inl x \<Rightarrow>
          if \<not> is_OSError x then (Inl x, env)
          else if path_isdir env src then
            (if destinsrc env src dst then (Inl ShutilError, env)
             else (case copytree env src real_dst of
                     (Inl y, env1) \<Rightarrow> (Inl y, env1)
                   | (Inr u, env1) \<Rightarrow> rmtree env1 src))
          else (case copy2 env src real_dst of
                  (Inl y, env1) \<Rightarrow> (Inl y, env1)
                | (Inr u, env1) \<Rightarrow> unlink env1 src))"

definition shutil_move :: "env \<Rightarrow> ppath \<Rightarrow> ppath \<Rightarrow> unit result" where
  "shutil_move env src dst =
     (if path_isdir env dst then
        (case samefile env src dst of
           Inl x \<Rightarrow> (Inl x, env)
         | Inr same \<Rightarrow>
             if same then
               (case os_rename env src dst of
                  Inl x \<Rightarrow> (Inl x, env)
                | Inr env1 \<Rightarrow> (Inr (), env1))
             else if path_exists env (joinpath dst (name src)) then (Inl ShutilError, env)
             else move_to env src dst (joinpath dst (name src)))
      else move_to env src dst dst)"

subsection \<open>Listing\<close>

text \<open>\<^verbatim>\<open>Path.iterdir\<close>: the names in the directory, which must be readable.\<close>

definition iterdir :: "env \<Rightarrow> ppath \<Rightarrow> exn + pystr list" where
  "iterdir env p =
     (case resolve env p of
        Inl x \<Rightarrow> Inl x
      | Inr c \<Rightarrow>
          (case lookup (root env) c of
             None \<Rightarrow> Inl (OSError ENOENT (str_path p))
           | Some (Dir m es) \<Rightarrow>
               if may_read m then Inr (map fsdecode (remdups (map fst es)))
               else Inl (OSError EACCES (str_path p))
           | Some n \<Rightarrow> Inl (OSError ENOTDIR (str_path p))))"

section \<open>The tools\<close>

text \<open>
  Every \<^verbatim>\<open>execute\<close> is a \<^verbatim>\<open>try\<close> block with the handlers \<^verbatim>\<open>except PermissionError\<close> and
  \<^verbatim>\<open>except Exception as e\<close>.  The result of a call is \<open>Inr\<close> the string returned or \<open>Inl\<close>
  an exception that leaves \<^verbatim>\<open>execute\<close>, with the environment after the call.
\<close>

definition handlers :: "pystr result \<Rightarrow> pystr \<Rightarrow> pystr \<Rightarrow> pystr result" where
  "handlers r denied other =
     (case r of
        (Inr s, env) \<Rightarrow> (Inr s, env)
      | (Inl x, env) \<Rightarrow>
          if is_PermissionError x then (Inr denied, env)
          else if is_Exception x then (Inr (other @ str_exn env x), env)
          else (Inl x, env))"

subsection \<open>ReadFileTool\<close>

definition ReadFileTool_try :: "env \<Rightarrow> pystr \<Rightarrow> pystr result" where
  "ReadFileTool_try env path =
     (case expanduser env (Path path) of
        Inl x \<Rightarrow> (Inl x, env)
      | Inr file_path \<Rightarrow>
     (case exists env file_path of
        Inl x \<Rightarrow> (Inl x, env)
      | Inr found \<Rightarrow>
          if \<not> found then (Inr (lit ''Error: File not found: '' @ path), env)
          else
     (case is_file env file_path of
        Inl x \<Rightarrow> (Inl x, env)
      | Inr regular \<Rightarrow>
          if \<not> regular then (Inr (lit ''Error: Not a file: '' @ path), env)
          else
     (case read_text env file_path of
        Inl x \<Rightarrow> (Inl x, env)
      | Inr content \<Rightarrow> (Inr content, env)))))"

definition ReadFileTool_execute :: "env \<Rightarrow> pystr \<Rightarrow> pystr result" where
  "ReadFileTool_execute env path =
     handlers (ReadFileTool_try env path)
       (lit ''Error: Permission denied: '' @ path) (lit ''Error reading file: '')"

subsection \<open>WriteFileTool\<close>

definition WriteFileTool_try :: "env \<Rightarrow> pystr \<Rightarrow> pystr \<Rightarrow> pystr result" where
  "WriteFileTool_try env path content =
     (case expanduser env (Path path) of
        Inl x \<Rightarrow> (Inl x, env)
      | Inr file_path \<Rightarrow>
     (case mkdir_parents (recursion_limit env) env (parent file_path) of
        (Inl x, env1) \<Rightarrow> (Inl x, env1)
      | (Inr u, env1) \<Rightarrow>
     (case write_text env1 file_path content of
        (Inl x, env2) \<Rightarrow> (Inl x, env2)
      | (Inr n, env2) \<Rightarrow>
          (Inr (lit ''Successfully wrote '' @ str_nat (length content)
                @ lit '' bytes to '' @ path), env2))))"

definition WriteFileTool_execute :: "env \<Rightarrow> pystr \<Rightarrow> pystr \<Rightarrow> pystr result" where
  "WriteFileTool_execute env path content =
     handlers (WriteFileTool_try env path content)
       (lit ''Error: Permission denied: '' @ path) (lit ''Error writing file: '')"

subsection \<open>EditFileTool\<close>

definition EditFileTool_try :: "env \<Rightarrow> pystr \<Rightarrow> pystr \<Rightarrow> pystr \<Rightarrow> pystr result" where
  "EditFileTool_try env path old_text new_text =
     (case expanduser env (Path path) of
        Inl x \<Rightarrow> (Inl x, env)
      | Inr file_path \<Rightarrow>
     (case exists env file_path of
        Inl x \<Rightarrow> (Inl x, env)
      | Inr found \<Rightarrow>
          if \<not> found then (Inr (lit ''Error: File not found: '' @ path), env)
          else
     (case read_text env file_path of
        Inl x \<Rightarrow> (Inl x, env)
      | Inr content \<Rightarrow>
          if \<not> py_in old_text content
          then (Inr (lit ''Error: old_text not found in file. Make sure it matches exactly.''), env)
          else
            (let count = py_count old_text content
             in if 1 < count
                then (Inr (lit ''Warning: old_text appears '' @ str_nat count
                           @ lit '' times. Please provide more context to make it unique.''),
                      env)
                else
                  (let new_content = py_replace1 old_text new_text content
                   in (case write_text env file_path new_content of
                         (Inl x, env1) \<Rightarrow> (Inl x, env1)
                       | (Inr n, env1) \<Rightarrow> (Inr (lit ''Successfully edited '' @ path), env1)))))))"

definition EditFileTool_execute :: "env \<Rightarrow> pystr \<Rightarrow> pystr \<Rightarrow> pystr \<Rightarrow> pystr result" where
  "EditFileTool_execute env path old_text new_text =
     handlers (EditFileTool_try env path old_text new_text)
       (lit ''Error: Permission denied: '' @ path) (lit ''Error editing file: '')"

subsection \<open>ListDirTool\<close>

text \<open>
  The items are the paths of the entries; sorting them compares their last components,
  string by string and code point by code point.  The loop asks \<^verbatim>\<open>is_dir\<close> of every item in
  turn.  The markers are U+1F4C1 and U+1F4C4.
\<close>

definition child :: "ppath \<Rightarrow> pystr \<Rightarrow> ppath" where
  "child p x = p\<lparr>parts := parts p @ [x]\<rparr>"

fun list_items :: "env \<Rightarrow> ppath \<Rightarrow> pystr list \<Rightarrow> exn + pystr list" where
  "list_items env dir_path [] = Inr []"
| "list_items env dir_path (x # xs) =
     (case is_dir env (child dir_path x) of
        Inl e \<Rightarrow> Inl e
      | Inr d \<Rightarrow>
          (case list_items env dir_path xs of
             Inl e \<Rightarrow> Inl e
           | Inr items \<Rightarrow>
               Inr (((if d then [0x1F4C1, 32] else [0x1F4C4, 32]) @ name (child dir_path x))
                    # items)))"

definition ListDirTool_try :: "env \<Rightarrow> pystr \<Rightarrow> pystr result" where
  "ListDirTool_try env path =
     (case expanduser env (Path path) of
        Inl x \<Rightarrow> (Inl x, env)
      | Inr dir_path \<Rightarrow>
     (case exists env dir_path of
        Inl x \<Rightarrow> (Inl x, env)
      | Inr found \<Rightarrow>
          if \<not> found then (Inr (lit ''Error: Directory not found: '' @ path), env)
          else
     (case is_dir env dir_path of
        Inl x \<Rightarrow> (Inl x, env)
      | Inr d \<Rightarrow>
          if \<not> d then (Inr (lit ''Error: Not a directory: '' @ path), env)
          else
     (case iterdir env dir_path of
        Inl x \<Rightarrow> (Inl x, env)
      | Inr names \<Rightarrow>
     (case list_items env dir_path (sort names) of
        Inl x \<Rightarrow> (Inl x, env)
      | Inr items \<Rightarrow>
          if items = [] then (Inr (lit ''Directory '' @ path @ lit '' is empty''), env)
          else (Inr (py_join [10] items), env))))))"

definition ListDirTool_execute :: "env \<Rightarrow> pystr \<Rightarrow> pystr result" where
  "ListDirTool_execute env path =
     handlers (ListDirTool_try env path)
       (lit ''Error: Permission denied: '' @ path) (lit ''Error listing directory: '')"

subsection \<open>RenameFileTool\<close>

definition RenameFileTool_try :: "env \<Rightarrow> pystr \<Rightarrow> pystr \<Rightarrow> pystr result" where
  "RenameFileTool_try env old_path new_name =
     (case expanduser env (Path old_path) of
        Inl x \<Rightarrow> (Inl x, env)
      | Inr old_file \<Rightarrow>
     (case exists env old_file of
        Inl x \<Rightarrow> (Inl x, env)
      | Inr found \<Rightarrow>
          if \<not> found then (Inr (lit ''Error: File or directory not found: '' @ old_path), env)
          else if py_in [47] new_name \<or> py_in [92] new_name
          then (Inr (lit ''Error: new_name should be just a name, not a path''), env)
          else
            (let new_file = joinpath (parent old_file) new_name
             in (case exists env new_file of
                   Inl x \<Rightarrow> (Inl x, env)
                 | Inr taken \<Rightarrow>
                     if taken
                     then (Inr (lit ''Error: Target already exists: '' @ str_path new_file), env)
                     else (case os_rename env old_file new_file of
                             Inl x \<Rightarrow> (Inl x, env)
                           | Inr env1 \<Rightarrow>
                               (Inr (lit ''Successfully renamed '' @ old_path @ lit '' to ''
                                     @ new_name), env1))))))"

definition RenameFileTool_execute :: "env \<Rightarrow> pystr \<Rightarrow> pystr \<Rightarrow> pystr result" where
  "RenameFileTool_execute env old_path new_name =
     handlers (RenameFileTool_try env old_path new_name)
       (lit ''Error: Permission denied'') (lit ''Error renaming: '')"

subsection \<open>MoveFileTool\<close>

definition MoveFileTool_try :: "env \<Rightarrow> pystr \<Rightarrow> pystr \<Rightarrow> pystr result" where
  "MoveFileTool_try env source destination =
     (case expanduser env (Path source) of
        Inl x \<Rightarrow> (Inl x, env)
      | Inr src_path \<Rightarrow>
     (case exists env src_path of
        Inl x \<Rightarrow> (Inl x, env)
      | Inr found \<Rightarrow>
          if \<not> found then (Inr (lit ''Error: Source not found: '' @ source), env)
          else
     (case expanduser env (Path destination) of
        Inl x \<Rightarrow> (Inl x, env)
      | Inr dest0 \<Rightarrow>
     (case is_dir env dest0 of
        Inl x \<Rightarrow> (Inl x, env)
      | Inr into \<Rightarrow>
          (let dest_path = (if into then joinpath dest0 (name src_path) else dest0)
           in
     (case mkdir_parents (recursion_limit env) env (parent dest_path) of
        (Inl x, env1) \<Rightarrow> (Inl x, env1)
      | (Inr u, env1) \<Rightarrow>
     (case exists env1 dest_path of
        Inl x \<Rightarrow> (Inl x, env1)
      | Inr taken \<Rightarrow>
          if taken then (Inr (lit ''Error: Destination already exists: '' @ destination), env1)
          else
     (case shutil_move env1 src_path dest_path of
        (Inl x, env2) \<Rightarrow> (Inl x, env2)
      | (Inr u, env2) \<Rightarrow>
          (Inr (lit ''Successfully moved '' @ source @ lit '' to '' @ destination), env2)))))))))"

definition MoveFileTool_execute :: "env \<Rightarrow> pystr \<Rightarrow> pystr \<Rightarrow> pystr result" where
  "MoveFileTool_execute env source destination =
     handlers (MoveFileTool_try env source destination)
       (lit ''Error: Permission denied'') (lit ''Error moving: '')"

subsection \<open>CopyFileTool\<close>

definition CopyFileTool_try :: "env \<Rightarrow> pystr \<Rightarrow> pystr \<Rightarrow> pystr result" where
  "CopyFileTool_try env source destination =
     (case expanduser env (Path source) of
        Inl x \<Rightarrow> (Inl x, env)
      | Inr src_path \<Rightarrow>
     (case exists env src_path of
        Inl x \<Rightarrow> (Inl x, env)
      | Inr found \<Rightarrow>
          if \<not> found then (Inr (lit ''Error: Source not found: '' @ source), env)
          else
     (case expanduser env (Path destination) of
        Inl x \<Rightarrow> (Inl x, env)
      | Inr dest0 \<Rightarrow>
     (case is_dir env dest0 of
        Inl x \<Rightarrow> (Inl x, env)
      | Inr into \<Rightarrow>
          (let dest_path = (if into then joinpath dest0 (name src_path) else dest0)
           in
     (case mkdir_parents (recursion_limit env) env (parent dest_path) of
        (Inl x, env1) \<Rightarrow> (Inl x, env1)
      | (Inr u, env1) \<Rightarrow>
     (case exists env1 dest_path of
        Inl x \<Rightarrow> (Inl x, env1)
      | Inr taken \<Rightarrow>
          if taken then (Inr (lit ''Error: Destination already exists: '' @ destination), env1)
          else
     (case is_dir env1 src_path of
        Inl x \<Rightarrow> (Inl x, env1)
      | Inr tree \<Rightarrow>
     (case (if tree then copytree env1 src_path dest_path
            else copy2 env1 src_path dest_path) of
        (Inl x, env2) \<Rightarrow> (Inl x, env2)
      | (Inr u, env2) \<Rightarrow>
          (Inr (lit ''Successfully copied '' @ source @ lit '' to '' @ destination),
           env2))))))))))"

definition CopyFileTool_execute :: "env \<Rightarrow> pystr \<Rightarrow> pystr \<Rightarrow> pystr result" where
  "CopyFileTool_execute env source destination =
     handlers (CopyFileTool_try env source destination)
       (lit ''Error: Permission denied'') (lit ''Error copying: '')"

subsection \<open>CreateDirTool\<close>

definition CreateDirTool_try :: "env \<Rightarrow> pystr \<Rightarrow> pystr result" where
  "CreateDirTool_try env path =
     (case expanduser env (Path path) of
        Inl x \<Rightarrow> (Inl x, env)
      | Inr dir_path \<Rightarrow>
     (case exists env dir_path of
        Inl x \<Rightarrow> (Inl x, env)
      | Inr found \<Rightarrow>
          if found then
            (case is_dir env dir_path of
               Inl x \<Rightarrow> (Inl x, env)
             | Inr d \<Rightarrow>
                 if d then (Inr (lit ''Directory already exists: '' @ path), env)
                 else (Inr (lit ''Error: A file with this name already exists: '' @ path), env))
          else
            (case mkdir_parents (recursion_limit env) env dir_path of
               (Inl x, env1) \<Rightarrow> (Inl x, env1)
             | (Inr u, env1) \<Rightarrow>
                 (Inr (lit ''Successfully created directory: '' @ path), env1))))"

definition CreateDirTool_execute :: "env \<Rightarrow> pystr \<Rightarrow> pystr result" where
  "CreateDirTool_execute env path =
     handlers (CreateDirTool_try env path)
       (lit ''Error: Permission denied: '' @ path) (lit ''Error creating directory: '')"

subsection \<open>The registry\<close>

datatype call =
    read_file pystr
  | write_file pystr pystr
  | edit_file pystr pystr pystr
  | list_dir pystr
  | rename_file pystr pystr
  | move_file pystr pystr
  | copy_file pystr pystr
  | create_dir pystr

fun execute :: "env \<Rightarrow> call \<Rightarrow> pystr result" where
  "execute env (read_file path) = ReadFileTool_execute env path"
| "execute env (write_file path content) = WriteFileTool_execute env path content"
| "execute env (edit_file path old_text new_text) = EditFileTool_execute env path old_text new_text"
| "execute env (list_dir path) = ListDirTool_execute env path"
| "execute env (rename_file old_path new_name) = RenameFileTool_execute env old_path new_name"
| "execute env (move_file source destination) = MoveFileTool_execute env source destination"
| "execute env (copy_file source destination) = CopyFileTool_execute env source destination"
| "execute env (create_dir path) = CreateDirTool_execute env path"

section \<open>Notions used in the statements\<close>

subsection \<open>Environments for concrete runs\<close>

text \<open>The umask of \<open>sample_env\<close> is \<^verbatim>\<open>0o022\<close>, and three nested calls are possible.\<close>

definition sample_env :: "node \<Rightarrow> env" where
  "sample_env t =
     \<lparr> root = t, cwd = [], homes = (\<lambda>u. None), str_exn = (\<lambda>e. lit ''?''),
       recursion_limit = Suc (Suc (Suc 0)), dir_mode = rwx \<rparr>"

subsection \<open>Texts\<close>

text \<open>
  A text can be written when each of its code points has a UTF-8 encoding, that is when it
  holds no lone surrogate.
\<close>

definition encodable :: "pystr \<Rightarrow> bool" where
  "encodable s \<longleftrightarrow> list_all (\<lambda>c. c < 0x110000 \<and> \<not> is_surrogate c) s"

text \<open>
  The positions at which \<open>sub\<close> occurs in \<open>s\<close>, overlapping occurrences included:
  \<open>sub\<close> occurs more than once when there are two such positions.
\<close>

definition occurrences :: "pystr \<Rightarrow> pystr \<Rightarrow> nat list" where
  "occurrences sub s = filter (\<lambda>i. prefix sub (drop i s)) [0..<Suc (length s)]"

text \<open>
  A plain name is what a component of a parsed path is: not empty, not \<^verbatim>\<open>.\<close>, without a
  slash.
\<close>

definition plain_name :: "pystr \<Rightarrow> bool" where
  "plain_name x \<longleftrightarrow> 47 \<notin> set x \<and> x \<noteq> [] \<and> x \<noteq> lit ''.''"

subsection \<open>Places of the tree\<close>

text \<open>
  What is at a place of the tree, seen from outside: nothing, a file with its permissions
  and bytes, a directory with its permissions, or a device.  \<open>lexwalk\<close> is the place a
  resolution arrives at when every directory on the way exists, and \<open>start_of\<close> the place it
  starts from.
\<close>

datatype kind = Missing | IsFile mode bytes | IsDir mode | IsDevice

definition kind_of :: "node option \<Rightarrow> kind" where
  "kind_of x =
     (case x of
        None \<Rightarrow> Missing
      | Some (File m b) \<Rightarrow> IsFile m b
      | Some (Dir m es) \<Rightarrow> IsDir m
      | Some Device \<Rightarrow> IsDevice)"

definition kind_at :: "node \<Rightarrow> place \<Rightarrow> kind" where
  "kind_at t p = kind_of (lookup t p)"

definition step :: "place \<Rightarrow> bytes \<Rightarrow> place" where
  "step cur x = (if x = lit ''..'' then butlast cur else cur @ [x])"

definition lexwalk :: "place \<Rightarrow> bytes list \<Rightarrow> place" where
  "lexwalk cur xs = foldl step cur xs"

definition start_of :: "env \<Rightarrow> ppath \<Rightarrow> place" where
  "start_of env p = (if anchor p = [] then cwd env else [])"

text \<open>
  \<open>searchable t c\<close>: at \<open>c\<close> is a directory that the process may search.  \<open>name_ok x\<close>: the
  component \<open>x\<close> is not too long for a file name.
\<close>

definition is_dir_node :: "node option \<Rightarrow> bool" where
  "is_dir_node x = (case x of Some (Dir m es) \<Rightarrow> True | _ \<Rightarrow> False)"

definition searchable :: "node \<Rightarrow> place \<Rightarrow> bool" where
  "searchable t c = (case lookup t c of Some (Dir m es) \<Rightarrow> may_search m | _ \<Rightarrow> False)"

definition name_ok :: "bytes \<Rightarrow> bool" where
  "name_ok x \<longleftrightarrow> x = lit ''..'' \<or> length x \<le> NAME_MAX"

subsection \<open>Paths where directories can be made\<close>

text \<open>
  \<open>way env p j\<close> is the place that the first \<open>j\<close> components of \<open>p\<close> lead to, \<^verbatim>\<open>..\<close> going
  back to the directory above.  A place is \<open>passable\<close> when it is a directory that may be
  searched, or is missing while new directories may be searched (the umask leaves them
  that permission); it \<open>has_room\<close> when it is a directory that may be written, or is missing
  while new directories may be written.

  \<open>creatable k env p\<close>, with \<open>k\<close> nested calls left: the system takes the path and each of
  its names; the directory where the path starts exists; each place on the way is
  passable, has room where the next place is missing, and, where it is missing itself, is
  at most \<open>k\<close> levels above the end of the path; and the place of the path is missing or a
  directory.
\<close>

definition way :: "env \<Rightarrow> ppath \<Rightarrow> nat \<Rightarrow> place" where
  "way env p j = lexwalk (start_of env p) (take j (map fsenc (parts p)))"

definition passable :: "env \<Rightarrow> place \<Rightarrow> bool" where
  "passable env c \<longleftrightarrow>
     searchable (root env) c \<or> (kind_at (root env) c = Missing \<and> may_search (dir_mode env))"

definition has_room :: "env \<Rightarrow> place \<Rightarrow> bool" where
  "has_room env c \<longleftrightarrow>
     may_change (root env) c \<or> (kind_at (root env) c = Missing \<and> may_write (dir_mode env))"

definition creatable :: "nat \<Rightarrow> env \<Rightarrow> ppath \<Rightarrow> bool" where
  "creatable k env p \<longleftrightarrow>
     (\<exists>comps. os_path p = Inr comps)
     \<and> (\<forall>x\<in>set (parts p). name_ok (fsenc x))
     \<and> kind_at (root env) (way env p 0) \<noteq> Missing
     \<and> (\<forall>j<length (parts p).
           passable env (way env p j)
           \<and> (kind_at (root env) (way env p (Suc j)) = Missing \<longrightarrow> has_room env (way env p j))
           \<and> (kind_at (root env) (way env p j) = Missing \<longrightarrow> length (parts p) - j \<le> k))
     \<and> (kind_at (root env) (way env p (length (parts p))) = Missing
        \<or> is_dir_node (lookup (root env) (way env p (length (parts p)))))"

subsection \<open>What a call leaves as it was\<close>

text \<open>\<open>same_frame env env'\<close>: the two environments differ in the tree only.\<close>

definition same_frame :: "env \<Rightarrow> env \<Rightarrow> bool" where
  "same_frame env env' \<longleftrightarrow> env' = env\<lparr>root := root env'\<rparr>"

section \<open>The equations that evaluate a concrete call\<close>

lemmas run_defs =
  sample_env_def handlers_def expanduser_def Path_def lit_def parent_def name_def joinpath_def
  str_path_def walk.simps mkdir_parents.simps mkdir_exist_ok_def os_mkdir_def resolve_def os_path_def
  fsencode_char_def fsenc_def NAME_MAX_def PATH_MAX_def exists_def is_file_def is_dir_def
  stat_def path_exists_def path_isdir_def samefile_def file_mode_def
  read_text_def read_bytes_def write_text_def open_w_def put_bytes_def
  encode_char_def is_cont_def is_surrogate_def universal_newlines_def
  str_nat.simps py_in_def py_count_def py_replace1_def os_rename_def moved_def special_last_def
  may_change_def shutil_move_def move_to_def destinsrc_def copytree_def copy2_def copy_entry_def
  copystat_def os_join_def rmtree_def os_rmdir_def unlink_def abspath_def iterdir_def child_def

section \<open>Facts about the text codec\<close>

lemma split2: "(c::nat) div 64 * 64 + c mod 64 = c" by simp

lemma g3: "(q::nat) * 4096 + m * 64 = (q * 64 + m) * 64" by simp
lemma g4: "(q::nat) * 262144 + m * 4096 = (q * 64 + m) * 4096" by simp

lemma split3: "(c::nat) div 4096 * 4096 + c div 64 mod 64 * 64 + c mod 64 = c"
proof -
  have a: "c div 4096 = c div 64 div 64" by (simp add: div_mult2_eq[symmetric])
  have "c div 64 div 64 * 64 + c div 64 mod 64 = c div 64" by (rule div_mult_mod_eq)
  then have "c div 64 div 64 * 4096 + c div 64 mod 64 * 64 = c div 64 * 64"
    by (simp only: g3)
  then have "c div 4096 * 4096 + c div 64 mod 64 * 64 + c mod 64 = c div 64 * 64 + c mod 64"
    by (simp only: a)
  then show ?thesis by (simp only: div_mult_mod_eq)
qed

lemma split4: "(c::nat) div 262144 * 262144 + c div 4096 mod 64 * 4096 + c div 64 mod 64 * 64 + c mod 64 = c"
proof -
  have a: "c div 262144 = c div 4096 div 64" by (simp add: div_mult2_eq[symmetric])
  have "c div 4096 div 64 * 64 + c div 4096 mod 64 = c div 4096" by (rule div_mult_mod_eq)
  then have "c div 4096 div 64 * 262144 + c div 4096 mod 64 * 4096 = c div 4096 * 4096"
    by (simp only: g4)
  then have "c div 262144 * 262144 + c div 4096 mod 64 * 4096 + c div 64 mod 64 * 64 + c mod 64
     = c div 4096 * 4096 + c div 64 mod 64 * 64 + c mod 64" by (simp only: a)
  then show ?thesis by (simp only: split3)
qed

lemma b2: "(0x80::nat) \<le> c \<Longrightarrow> c < 0x800 \<Longrightarrow> 2 \<le> c div 64 \<and> c div 64 < 32"
  using div_le_mono[of 128 c 64] by (simp add: div_less_iff_less_mult)
lemma b3: "(c::nat) < 0x10000 \<Longrightarrow> c div 4096 < 16"
  by (simp add: div_less_iff_less_mult)
lemma b4: "(c::nat) < 0x110000 \<Longrightarrow> c div 262144 < 5"
  by (simp add: div_less_iff_less_mult)

lemma decode_encode_char:
  assumes "encode_char c = Some bs"
  shows "utf8_decode (bs @ r) = map_option ((#) c) (utf8_decode r)"
proof -
  consider "c < 0x80" | "0x80 \<le> c" "c < 0x800" | "0x800 \<le> c" "c < 0x10000" "\<not> is_surrogate c"
    | "0x10000 \<le> c" "c < 0x110000"
    using assms by (auto simp: encode_char_def split: if_splits)
  then show ?thesis
  proof cases
    case 1
    then have "bs = [c]" using assms by (simp add: encode_char_def)
    with 1 show ?thesis by simp
  next
    case 2
    then have bs: "bs = [0xC0 + c div 64, 0x80 + c mod 64]"
      using assms by (simp add: encode_char_def)
    from 2 have "2 \<le> c div 64" "c div 64 < 32" "c div 64 * 64 + c mod 64 = c"
      using b2[of c] by simp_all
    then show ?thesis unfolding bs by (simp add: is_cont_def)
  next
    case 3
    then have bs: "bs = [0xE0 + c div 4096, 0x80 + (c div 64) mod 64, 0x80 + c mod 64]"
      using assms by (simp add: encode_char_def)
    from 3 have "c div 4096 < 16" by (simp add: b3)
    with 3 show ?thesis unfolding bs by (simp add: is_cont_def split3)
  next
    case 4
    then have bs: "bs = [0xF0 + c div 262144, 0x80 + (c div 4096) mod 64,
              0x80 + (c div 64) mod 64, 0x80 + c mod 64]"
      using assms by (simp add: encode_char_def)
    from 4 have "c div 262144 < 5" by (simp add: b4)
    with 4 show ?thesis unfolding bs by (simp add: is_cont_def split4)
  qed
qed

lemma utf8_roundtrip: "utf8_encode s = Some b \<Longrightarrow> utf8_decode b = Some s"
proof (induction s arbitrary: b)
  case Nil then show ?case by simp
next
  case (Cons c cs)
  then show ?case by (auto split: option.splits simp: decode_encode_char simp del: utf8_decode.simps)
qed

lemma encode_char_None: "encode_char c = None \<longleftrightarrow> \<not> (c < 0x110000 \<and> \<not> is_surrogate c)"
  by (auto simp: encode_char_def is_surrogate_def)

lemma utf8_encode_encodable: "utf8_encode s \<noteq> None \<longleftrightarrow> encodable s"
proof (induction s)
  case Nil then show ?case by (simp add: encodable_def)
next
  case (Cons c cs)
  show ?case
  proof (cases "encode_char c")
    case None
    then show ?thesis using encode_char_None[of c] by (auto simp: encodable_def)
  next
    case (Some bs)
    then have "c < 0x110000 \<and> \<not> is_surrogate c" using encode_char_None[of c] by auto
    with Some Cons show ?thesis by (auto simp: encodable_def split: option.splits)
  qed
qed

lemma translate_newlines_encodable: "encodable s \<Longrightarrow> encodable (translate_newlines f s)"
  by (induction s arbitrary: f) (auto simp: encodable_def is_surrogate_def)

lemma translate_newlines_no_cr: "13 \<notin> set s \<Longrightarrow> translate_newlines False s = s"
  by (induction s) auto

lemma encodable_Cons: "encodable (c # s) \<longleftrightarrow> c < 0x110000 \<and> \<not> is_surrogate c \<and> encodable s"
  by (simp add: encodable_def)

lemma utf8_decode_encodable: "utf8_decode bb = Some s \<Longrightarrow> encodable s"
proof (induction "length bb" arbitrary: bb s rule: less_induct)
  case less
  show ?case
  proof (cases bb)
    case Nil
    with less.prems show ?thesis by (simp add: encodable_def)
  next
    case (Cons b bs)
    note prem = less.prems[unfolded Cons]
    have IH: "\<And>r r'. length r < length (b # bs) \<Longrightarrow> utf8_decode r = Some r' \<Longrightarrow> encodable r'"
      using less.hyps Cons by simp
    consider "b < 0x80" | "0xC2 \<le> b" "b < 0xE0" | "0xE0 \<le> b" "b < 0xF0" | "0xF0 \<le> b" "b < 0xF5"
      | "0x80 \<le> b" "b < 0xC2" | "0xF5 \<le> b"
      by linarith
    then show ?thesis
    proof cases
      case 1
      with prem obtain r where "utf8_decode bs = Some r" "s = b # r" by auto
      with 1 IH[of bs r] show ?thesis by (simp add: encodable_Cons is_surrogate_def)
    next
      case 2
      with prem obtain b1 r where bs: "bs = b1 # r" by (cases bs) auto
      with 2 prem have c: "is_cont b1" by (auto split: if_splits)
      with 2 bs prem obtain r' where r': "utf8_decode r = Some r'"
        "s = ((b - 0xC0) * 64 + (b1 - 0x80)) # r'" by auto
      have "encodable r'" using IH[of r r'] r' bs by simp
      moreover have "(b - 0xC0) * 64 + (b1 - 0x80) < 0x800" using 2 c unfolding is_cont_def by linarith
      ultimately show ?thesis using r' by (simp add: encodable_Cons is_surrogate_def)
    next
      case 3
      with prem obtain b1 b2 r where bs: "bs = b1 # b2 # r"
        by (cases bs; cases "tl bs") auto
      define c where "c = (b - 0xE0) * 4096 + (b1 - 0x80) * 64 + (b2 - 0x80)"
      from 3 bs prem have ok: "is_cont b1 \<and> is_cont b2 \<and> 0x800 \<le> c \<and> \<not> is_surrogate c"
        by (auto simp: c_def Let_def split: if_splits)
      with 3 bs prem obtain r' where r': "utf8_decode r = Some r'" "s = c # r'"
        by (auto simp: c_def Let_def)
      have "encodable r'" using IH[of r r'] r' bs by simp
      moreover have "c < 0x110000" using 3 ok unfolding c_def is_cont_def by linarith
      ultimately show ?thesis using r' ok by (simp add: encodable_Cons)
    next
      case 4
      with prem obtain b1 b2 b3 r where bs: "bs = b1 # b2 # b3 # r"
        by (cases bs; cases "tl bs"; cases "tl (tl bs)") auto
      define c where "c = (b - 0xF0) * 262144 + (b1 - 0x80) * 4096 + (b2 - 0x80) * 64 + (b3 - 0x80)"
      from 4 bs prem have ok: "is_cont b1 \<and> is_cont b2 \<and> is_cont b3 \<and> 0x10000 \<le> c \<and> c < 0x110000"
        by (auto simp: c_def Let_def split: if_splits)
      with 4 bs prem obtain r' where r': "utf8_decode r = Some r'" "s = c # r'"
        by (auto simp: c_def Let_def)
      have "encodable r'" using IH[of r r'] r' bs by simp
      moreover have "\<not> is_surrogate c" using ok by (simp add: is_surrogate_def)
      ultimately show ?thesis using r' ok by (simp add: encodable_Cons)
    next
      case 5
      with prem show ?thesis by simp
    next
      case 6
      with prem show ?thesis by simp
    qed
  qed
qed

lemma universal_newlines_no_cr: "13 \<notin> set s \<Longrightarrow> universal_newlines s = s"
  by (simp add: universal_newlines_def translate_newlines_no_cr)

section \<open>Occurrences of a text in a text\<close>

lemma occurrences_Nil: "occurrences sub [] = (if sub = [] then [0] else [])"
  by (simp add: occurrences_def)

lemma occurrences_Cons:
  "occurrences sub (c # cs) = (if prefix sub (c # cs) then [0] else []) @ map Suc (occurrences sub cs)"
proof -
  have "[0..<Suc (length (c # cs))] = 0 # map Suc [0..<Suc (length cs)]"
    by (simp only: length_Cons map_Suc_upt) (simp add: upt_conv_Cons del: upt_Suc)
  then show ?thesis
    unfolding occurrences_def by (simp add: filter_map comp_def del: upt_Suc)
qed

lemma py_find_occurrences:
  "py_find sub s = (case occurrences sub s of [] \<Rightarrow> None | i # is \<Rightarrow> Some i)"
  by (induction s) (auto simp: occurrences_Nil occurrences_Cons split: list.splits)

lemma count_from_le: "sub \<noteq> [] \<Longrightarrow> count_from sub k s \<le> length (occurrences sub s)"
  by (induction s arbitrary: k) (auto simp: occurrences_Nil occurrences_Cons le_SucI)

lemma length_occurrences_empty: "length (occurrences [] s) = Suc (length s)"
  by (simp add: occurrences_def)

lemma py_count_le: "py_count sub s \<le> length (occurrences sub s)"
  by (simp add: py_count_def count_from_le length_occurrences_empty)

lemma occurrence_split:
  assumes "i \<in> set (occurrences sub s)"
  shows "s = take i s @ sub @ drop (i + length sub) s"
proof -
  from assms have "prefix sub (drop i s)" unfolding occurrences_def by (simp del: upt_Suc)
  then obtain r where r: "drop i s = sub @ r" by (auto simp: prefix_def)
  then have "drop (length sub) (drop i s) = r" by simp
  then have "drop (i + length sub) s = r" by (simp add: add.commute)
  with r show ?thesis by (metis append_take_drop_id)
qed

section \<open>Facts about the tree\<close>

lemma lookup_append:
  "lookup t (p @ q) = (case lookup t p of None \<Rightarrow> None | Some n \<Rightarrow> lookup n q)"
  by (induction t p rule: lookup.induct) (auto split: option.splits)

lemma lookup_below_nondir:
  "lookup t p = Some n \<Longrightarrow> \<not> is_dir_node (Some n) \<Longrightarrow> q \<noteq> [] \<Longrightarrow> lookup t (p @ q) = None"
  by (cases q; cases n) (auto simp: lookup_append is_dir_node_def)

lemma lookup_None_below: "lookup t c = None \<Longrightarrow> lookup t (c @ r) = None"
  by (simp add: lookup_append)

lemma lookup_prefix_dir:
  assumes "lookup t (p @ q) = Some n" "q \<noteq> []"
  shows "is_dir_node (lookup t p)"
proof (cases "lookup t p")
  case None
  with assms show ?thesis by (simp add: lookup_append)
next
  case (Some a)
  show ?thesis
  proof (rule ccontr)
    assume "\<not> is_dir_node (lookup t p)"
    with Some assms(2) have "lookup t (p @ q) = None" by (simp add: lookup_below_nondir)
    with assms(1) show False by simp
  qed
qed

lemma lookup_snoc_dir: "lookup t (p @ [x]) = Some n \<Longrightarrow> is_dir_node (lookup t p)"
  by (rule lookup_prefix_dir[of t p "[x]"]) simp_all

lemma lookup_parent_dir: "lookup t c = Some n \<Longrightarrow> c = [] \<or> is_dir_node (lookup t (butlast c))"
  by (cases c rule: rev_cases) (auto dest: lookup_snoc_dir)

lemma lookup_prefix_exists: "lookup t q = Some n \<Longrightarrow> prefix p q \<Longrightarrow> lookup t p \<noteq> None"
  by (auto simp: prefix_def lookup_append split: option.splits)

lemma is_dir_nodeE:
  assumes "is_dir_node x" obtains m es where "x = Some (Dir m es)"
  using assms by (auto simp: is_dir_node_def split: option.splits node.splits)

lemma store_dir_snoc:
  "is_dir_node (lookup t p) \<Longrightarrow>
   lookup (store t (p @ [x]) v) (p @ x # q) = (case v of None \<Rightarrow> None | Some n \<Rightarrow> lookup n q)"
proof (induction p arbitrary: t)
  case Nil
  then show ?case
    by (cases t) (auto simp: is_dir_node_def update_conv' delete_conv' split: option.splits)
next
  case (Cons c cs)
  then obtain m es where t: "t = Dir m es" by (cases t) (auto simp: is_dir_node_def)
  with Cons.prems obtain n where n: "map_of es c = Some n" "is_dir_node (lookup n cs)"
    by (auto simp: is_dir_node_def split: option.splits)
  have "store t ((c # cs) @ [x]) v = Dir m (AList.update c (store n (cs @ [x]) v) es)"
    using t n by (cases "cs @ [x]") auto
  then show ?case using Cons.IH[OF n(2)] by (simp add: update_conv')
qed

lemma lookup_store_other:
  "\<not> prefix p q \<Longrightarrow> \<not> prefix q p \<Longrightarrow> lookup (store t p v) q = lookup t q"
proof (induction t p v arbitrary: q rule: store.induct)
  case (1 n v)
  then show ?case by simp
next
  case (2 m es c v)
  then show ?case
    by (cases q) (auto simp: update_conv' delete_conv' split: option.splits)
next
  case (3 m es c d ds v)
  show ?case
  proof (cases "map_of es c")
    case None
    then show ?thesis by simp
  next
    case (Some n)
    show ?thesis
    proof (cases q)
      case Nil
      then show ?thesis using "3.prems" by simp
    next
      case (Cons e qs)
      show ?thesis
      proof (cases "e = c")
        case True
        with Cons "3.prems" have "\<not> prefix (d # ds) qs" "\<not> prefix qs (d # ds)" by simp_all
        from "3.IH"[OF Some this] show ?thesis
          using Some Cons True by (simp add: update_conv')
      next
        case False
        then show ?thesis using Some Cons by (simp add: update_conv')
      qed
    qed
  qed
next
  case (4 m b c cs v)
  then show ?case by simp
next
  case (5 c cs v)
  then show ?case by simp
qed

lemma kind_store_other:
  "\<not> prefix p q \<Longrightarrow> kind_at (store t p v) q = kind_at t q"
proof (induction t p v arbitrary: q rule: store.induct)
  case (1 n v)
  then show ?case by simp
next
  case (2 m es c v)
  then show ?case
    by (cases q) (auto simp: kind_at_def kind_of_def update_conv' delete_conv' split: option.splits)
next
  case (3 m es c d ds v)
  show ?case
  proof (cases "map_of es c")
    case None
    then show ?thesis by simp
  next
    case (Some n)
    show ?thesis
    proof (cases q)
      case Nil
      then show ?thesis using Some by (simp add: kind_at_def kind_of_def)
    next
      case (Cons e qs)
      show ?thesis
      proof (cases "e = c")
        case True
        with Cons "3.prems" have "\<not> prefix (d # ds) qs" by simp
        from "3.IH"[OF Some this] show ?thesis
          using Some Cons True by (simp add: kind_at_def update_conv')
      next
        case False
        then show ?thesis using Some Cons by (simp add: kind_at_def update_conv')
      qed
    qed
  qed
next
  case (4 m b c cs v)
  then show ?case by simp
next
  case (5 c cs v)
  then show ?case by simp
qed

text \<open>What the tree holds after \<open>store\<close> at a place whose parent is a directory.\<close>

lemma lookup_store_at:
  assumes "is_dir_node (lookup t (butlast c))" "c \<noteq> []"
  shows "lookup (store t c v) (c @ q) = (case v of None \<Rightarrow> None | Some n \<Rightarrow> lookup n q)"
proof -
  from assms(2) obtain p x where c: "c = p @ [x]" by (cases c rule: rev_cases) auto
  with assms(1) show ?thesis using store_dir_snoc[of t p x v q] by simp
qed

lemma kind_store:
  assumes "is_dir_node (lookup t (butlast c))" "c \<noteq> []"
  shows "kind_at (store t c v) q =
     (if prefix c q then kind_of (case v of None \<Rightarrow> None | Some n \<Rightarrow> lookup n (drop (length c) q))
      else kind_at t q)"
proof (cases "prefix c q")
  case True
  then obtain r where q: "q = c @ r" by (auto simp: prefix_def)
  show ?thesis using True lookup_store_at[OF assms, of v r]
    by (cases v) (simp_all add: kind_at_def q)
next
  case False
  then show ?thesis by (simp add: kind_store_other)
qed

lemma kind_at_missing_iff: "kind_at t p = Missing \<longleftrightarrow> lookup t p = None"
  by (auto simp: kind_at_def kind_of_def split: option.splits node.splits)

lemma kind_at_dir_iff: "(\<exists>m. kind_at t p = IsDir m) \<longleftrightarrow> is_dir_node (lookup t p)"
  by (auto simp: kind_at_def kind_of_def is_dir_node_def split: option.splits node.splits)

lemma kind_at_dir_lookup: "kind_at t p = IsDir m \<longleftrightarrow> (\<exists>es. lookup t p = Some (Dir m es))"
  by (auto simp: kind_at_def kind_of_def split: option.splits node.splits)

lemma kind_at_file_lookup: "kind_at t p = IsFile m b \<longleftrightarrow> lookup t p = Some (File m b)"
  by (auto simp: kind_at_def kind_of_def split: option.splits node.splits)

lemma kind_at_device_lookup: "kind_at t p = IsDevice \<longleftrightarrow> lookup t p = Some Device"
  by (auto simp: kind_at_def kind_of_def split: option.splits node.splits)

lemma searchable_kind: "searchable t c \<longleftrightarrow> (\<exists>m. kind_at t c = IsDir m \<and> may_search m)"
  by (auto simp: searchable_def kind_at_def kind_of_def split: option.splits node.splits)

lemma may_change_kind: "may_change t c \<longleftrightarrow> (\<exists>m. kind_at t c = IsDir m \<and> may_write m)"
  by (auto simp: may_change_def kind_at_def kind_of_def split: option.splits node.splits)

lemma searchable_dir: "searchable t c \<Longrightarrow> is_dir_node (lookup t c)"
  by (auto simp: searchable_def is_dir_node_def split: option.splits node.splits)

section \<open>Facts about path resolution\<close>

lemma lexwalk_simps [simp]:
  "lexwalk cur [] = cur" "lexwalk cur (x # xs) = lexwalk (step cur x) xs"
  "lexwalk cur (xs @ ys) = lexwalk (lexwalk cur xs) ys"
  by (simp_all add: lexwalk_def)

lemma walk_Cons:
  "walk t cur (x # xs) =
     (if lookup t cur = None then Inl ENOENT
      else if \<not> is_dir_node (lookup t cur) then Inl ENOTDIR
      else if \<not> searchable t cur then Inl EACCES
      else if \<not> name_ok x then Inl ENAMETOOLONG
      else walk t (step cur x) xs)"
  by (auto simp: is_dir_node_def searchable_def name_ok_def step_def
      split: option.splits node.splits)

declare walk.simps(2) [simp del]

lemma walk_lexwalk: "walk t cur xs = Inr c \<Longrightarrow> c = lexwalk cur xs"
  by (induction xs arbitrary: cur) (auto simp: walk_Cons split: if_splits)

lemma walk_append:
  "walk t cur (xs @ ys) = (case walk t cur xs of Inl e \<Rightarrow> Inl e | Inr c \<Rightarrow> walk t c ys)"
  by (induction xs arbitrary: cur) (auto simp: walk_Cons)

lemma walk_Inr_iff:
  "walk t cur xs = Inr c \<longleftrightarrow>
     c = lexwalk cur xs
     \<and> (\<forall>k<length xs. searchable t (lexwalk cur (take k xs)) \<and> name_ok (xs ! k))"
proof (induction xs arbitrary: cur)
  case Nil
  then show ?case by auto
next
  case (Cons x xs)
  have *: "(\<forall>k<Suc (length xs). P k) \<longleftrightarrow> P 0 \<and> (\<forall>k<length xs. P (Suc k))" for P
    by (metis less_Suc_eq_0_disj)
  show ?case
    unfolding walk_Cons
    using Cons.IH[of "step cur x"] searchable_dir[of t cur]
    by (auto simp: * is_dir_node_def)
qed

lemma walk_kind_cong:
  assumes "\<And>k. k < length xs \<Longrightarrow> kind_at t' (lexwalk cur (take k xs)) = kind_at t (lexwalk cur (take k xs))"
  shows "walk t' cur xs = walk t cur xs"
  using assms
proof (induction xs arbitrary: cur)
  case Nil
  then show ?case by simp
next
  case (Cons x xs)
  from Cons.prems[of 0] have k0: "kind_at t' cur = kind_at t cur" by simp
  have "walk t' (step cur x) xs = walk t (step cur x) xs"
  proof (rule Cons.IH)
    fix k assume "k < length xs"
    then show "kind_at t' (lexwalk (step cur x) (take k xs)) = kind_at t (lexwalk (step cur x) (take k xs))"
      using Cons.prems[of "Suc k"] by simp
  qed
  moreover have "lookup t' cur = None \<longleftrightarrow> lookup t cur = None"
    using k0 by (simp add: kind_at_missing_iff[symmetric])
  moreover have "is_dir_node (lookup t' cur) \<longleftrightarrow> is_dir_node (lookup t cur)"
    using k0 by (simp add: kind_at_dir_iff[symmetric])
  moreover have "searchable t' cur \<longleftrightarrow> searchable t cur"
    using k0 by (simp add: searchable_kind)
  ultimately show ?case by (simp add: walk_Cons)
qed

section \<open>Facts about the paths the system is given\<close>

lemma fsencode_append:
  "fsencode (u @ v) =
     (case fsencode u of None \<Rightarrow> None
      | Some a \<Rightarrow> (case fsencode v of None \<Rightarrow> None | Some b \<Rightarrow> Some (a @ b)))"
  by (induction u) (auto split: option.splits)

lemma fsencode_prefix:
  assumes "fsencode (u @ v) = Some b"
  obtains a where "fsencode u = Some a" "prefix a b"
  using assms by (auto simp: fsencode_append split: option.splits)

lemma py_join_snoc:
  "py_join sep (ys @ [y]) = (if ys = [] then y else py_join sep ys @ sep @ y)"
  by (induction sep ys rule: py_join.induct) auto

lemma str_path_parent:
  assumes "parts p \<noteq> []"
  shows "str_path (parent p) = lit ''.'' \<or> (\<exists>r. str_path p = str_path (parent p) @ r)"
proof -
  from assms obtain ys y where ys: "parts p = ys @ [y]" by (cases "parts p" rule: rev_cases) auto
  show ?thesis
    by (cases "ys = []") (auto simp: str_path_def parent_def ys py_join_snoc)
qed

lemma os_path_parent:
  assumes "os_path p = Inr comps"
  shows "os_path (parent p) = Inr (butlast comps)"
proof (cases "parts p = []")
  case True
  then have "parent p = p" by (simp add: parent_def)
  moreover have "comps = []" using assms True by (auto simp: os_path_def split: option.splits if_splits)
  ultimately show ?thesis using assms by simp
next
  case False
  from assms obtain b where b: "fsencode (str_path p) = Some b" "0 \<notin> set b" "length b < PATH_MAX"
    and comps: "comps = map fsenc (parts p)"
    by (auto simp: os_path_def split: option.splits if_splits)
  have pp: "map fsenc (parts (parent p)) = butlast comps"
    using False by (simp add: parent_def comps map_butlast)
  from str_path_parent[OF False] show ?thesis
  proof
    assume d: "str_path (parent p) = lit ''.''"
    have "fsencode (lit ''.'') = Some [46]"
      by (simp add: lit_def fsencode_char_def encode_char_def)
    then show ?thesis using pp by (simp add: os_path_def d PATH_MAX_def)
  next
    assume "\<exists>r. str_path p = str_path (parent p) @ r"
    then obtain r where r: "str_path p = str_path (parent p) @ r" by blast
    from b(1) obtain a where a: "fsencode (str_path (parent p)) = Some a" "prefix a b"
      unfolding r by (rule fsencode_prefix)
    from a(2) have "set a \<subseteq> set b" "length a \<le> length b"
      by (auto simp: prefix_def)
    with b have "0 \<notin> set a" "length a < PATH_MAX" by auto
    with a(1) pp show ?thesis by (simp add: os_path_def)
  qed
qed

section \<open>Facts about the questions a tool asks\<close>

lemma resolve_start:
  "resolve env p =
     (case os_path p of
        Inl x \<Rightarrow> Inl x
      | Inr comps \<Rightarrow>
          (case walk (root env) (start_of env p) comps of
             Inl e \<Rightarrow> Inl (OSError e (str_path p))
           | Inr c \<Rightarrow> Inr c))"
  by (auto simp: resolve_def start_of_def split: sum.splits)

lemma resolve_Inr_iff:
  "resolve env p = Inr c \<longleftrightarrow>
     (\<exists>comps. os_path p = Inr comps \<and> walk (root env) (start_of env p) comps = Inr c)"
  by (auto simp: resolve_start split: sum.splits)

lemma start_of_parent [simp]: "start_of env (parent p) = start_of env p"
  by (simp add: start_of_def parent_def)

lemma stat_Inr_iff:
  "stat env p = Inr n \<longleftrightarrow> (\<exists>c. resolve env p = Inr c \<and> lookup (root env) c = Some n)"
  by (auto simp: stat_def split: sum.splits option.splits)

lemma exists_True_iff:
  "exists env p = Inr True \<longleftrightarrow> (\<exists>c n. resolve env p = Inr c \<and> lookup (root env) c = Some n)"
  by (auto simp: exists_def stat_def split: sum.splits option.splits)

lemma is_dir_True_iff:
  "is_dir env p = Inr True \<longleftrightarrow>
     (\<exists>c m es. resolve env p = Inr c \<and> lookup (root env) c = Some (Dir m es))"
  by (auto simp: is_dir_def stat_def split: sum.splits option.splits node.splits)

lemma is_file_True_iff:
  "is_file env p = Inr True \<longleftrightarrow>
     (\<exists>c m b. resolve env p = Inr c \<and> lookup (root env) c = Some (File m b))"
  by (auto simp: is_file_def stat_def split: sum.splits option.splits node.splits)

lemma is_dir_exists: "is_dir env p = Inr True \<Longrightarrow> exists env p = Inr True"
  by (auto simp: is_dir_True_iff exists_True_iff)

lemma is_file_exists: "is_file env p = Inr True \<Longrightarrow> exists env p = Inr True"
  by (auto simp: is_file_True_iff exists_True_iff)

text \<open>The path above a path that resolves is a directory.\<close>

lemma resolve_parent:
  assumes "resolve env p = Inr c"
  shows "\<exists>c'. resolve env (parent p) = Inr c' \<and> (parts p \<noteq> [] \<longrightarrow> searchable (root env) c')
              \<and> (parts p = [] \<longrightarrow> c' = c)"
proof (cases "parts p = []")
  case True
  then have "parent p = p" by (simp add: parent_def)
  with assms True show ?thesis by simp
next
  case False
  from assms obtain comps where o: "os_path p = Inr comps"
    and w: "walk (root env) (start_of env p) comps = Inr c"
    by (auto simp: resolve_Inr_iff)
  have "comps \<noteq> []" using o False by (auto simp: os_path_def split: option.splits if_splits)
  then have cs: "comps = butlast comps @ [last comps]" by simp
  from w obtain c' where c': "walk (root env) (start_of env p) (butlast comps) = Inr c'"
    and l: "walk (root env) c' [last comps] = Inr c"
    by (subst (asm) cs) (auto simp: walk_append split: sum.splits)
  from l have "searchable (root env) c'" by (auto simp: walk_Cons split: if_splits)
  moreover have "resolve env (parent p) = Inr c'"
    using os_path_parent[OF o] c' by (simp add: resolve_Inr_iff)
  ultimately show ?thesis using False by blast
qed

lemma is_dir_parent: "is_dir env p = Inr True \<Longrightarrow> is_dir env (parent p) = Inr True"
proof -
  assume d: "is_dir env p = Inr True"
  then obtain c m es where c: "resolve env p = Inr c" "lookup (root env) c = Some (Dir m es)"
    by (auto simp: is_dir_True_iff)
  from resolve_parent[OF c(1)] obtain c' where c': "resolve env (parent p) = Inr c'"
    "parts p \<noteq> [] \<longrightarrow> searchable (root env) c'" "parts p = [] \<longrightarrow> c' = c" by blast
  show ?thesis
  proof (cases "parts p = []")
    case True
    with c c' show ?thesis by (auto simp: is_dir_True_iff)
  next
    case False
    with c' have "is_dir_node (lookup (root env) c')" by (simp add: searchable_dir)
    with c'(1) show ?thesis by (auto simp: is_dir_True_iff elim: is_dir_nodeE)
  qed
qed

lemma exists_parent: "exists env p = Inr True \<Longrightarrow> is_dir env (parent p) = Inr True \<or> parts p = []"
proof -
  assume "exists env p = Inr True"
  then obtain c n where c: "resolve env p = Inr c" by (auto simp: exists_True_iff)
  from resolve_parent[OF c] obtain c' where c': "resolve env (parent p) = Inr c'"
    "parts p \<noteq> [] \<longrightarrow> searchable (root env) c'" by blast
  show ?thesis
  proof (cases "parts p = []")
    case False
    with c' have "is_dir_node (lookup (root env) c')" by (simp add: searchable_dir)
    with c'(1) show ?thesis by (auto simp: is_dir_True_iff elim: is_dir_nodeE)
  qed simp
qed

section \<open>Facts about making directories\<close>

lemma os_mkdir_exists:
  "exists env p = Inr True \<Longrightarrow> os_mkdir env p = Inl (OSError EEXIST (str_path p))"
  by (auto simp: exists_True_iff os_mkdir_def)

lemma mkdir_parents_is_dir:
  "is_dir env p = Inr True \<Longrightarrow> mkdir_parents k env p = (Inr (), env)"
  using os_mkdir_exists[OF is_dir_exists, of env p]
  by (simp add: mkdir_parents.simps[of k env p])

lemma mkdir_exist_ok_is_dir:
  "is_dir env p = Inr True \<Longrightarrow> mkdir_exist_ok env p = (Inr (), env)"
  using os_mkdir_exists[OF is_dir_exists, of env p]
  by (simp add: mkdir_exist_ok_def)

section \<open>What a call leaves as it was\<close>

lemma store_root_fields [simp]:
  "cwd (env\<lparr>root := t\<rparr>) = cwd env" "homes (env\<lparr>root := t\<rparr>) = homes env"
  "str_exn (env\<lparr>root := t\<rparr>) = str_exn env"
  by simp_all

lemma same_frame_refl [simp]: "same_frame env env"
  by (simp add: same_frame_def)

lemma same_frame_root [simp]: "same_frame env (env\<lparr>root := t\<rparr>)"
  by (simp add: same_frame_def)

lemma same_frame_trans: "same_frame a b \<Longrightarrow> same_frame b c \<Longrightarrow> same_frame a c"
  by (cases a; cases b; cases c) (auto simp: same_frame_def)

lemma same_frame_fields:
  "same_frame env env' \<Longrightarrow> cwd env' = cwd env \<and> homes env' = homes env \<and> str_exn env' = str_exn env
     \<and> recursion_limit env' = recursion_limit env \<and> dir_mode env' = dir_mode env"
  by (cases env; cases env') (auto simp: same_frame_def)

lemma start_of_frame: "same_frame env env' \<Longrightarrow> start_of env' p = start_of env p"
  by (drule same_frame_fields) (simp add: start_of_def)

lemma expanduser_frame: "same_frame env env' \<Longrightarrow> expanduser env' p = expanduser env p"
  by (drule same_frame_fields) (simp add: expanduser_def)

section \<open>Facts about reading and writing\<close>

lemma dir_prefix:
  assumes "is_dir_node (lookup t q)" "prefix c q"
  shows "is_dir_node (lookup t c)"
proof -
  from assms(2) obtain r where q: "q = c @ r" by (auto simp: prefix_def)
  show ?thesis
  proof (cases r)
    case Nil
    with q assms(1) show ?thesis by simp
  next
    case (Cons a as)
    from assms(1) obtain n where "lookup t (c @ r) = Some n"
      unfolding q by (auto elim: is_dir_nodeE)
    then show ?thesis using lookup_prefix_dir[of t c r n] Cons by simp
  qed
qed

lemma walk_store_nondir:
  assumes "walk t cur xs = Inr c'" "\<not> is_dir_node (lookup t c)"
  shows "walk (store t c v) cur xs = Inr c'"
proof -
  have "walk (store t c v) cur xs = walk t cur xs"
  proof (rule walk_kind_cong)
    fix k assume k: "k < length xs"
    from assms(1) k have "searchable t (lexwalk cur (take k xs))" by (simp add: walk_Inr_iff)
    then have "is_dir_node (lookup t (lexwalk cur (take k xs)))" by (rule searchable_dir)
    with assms(2) have "\<not> prefix c (lexwalk cur (take k xs))" using dir_prefix by blast
    then show "kind_at (store t c v) (lexwalk cur (take k xs)) = kind_at t (lexwalk cur (take k xs))"
      by (rule kind_store_other)
  qed
  with assms(1) show ?thesis by simp
qed

lemma resolve_store_nondir:
  assumes "resolve env p = Inr c'" "\<not> is_dir_node (lookup (root env) c)"
  shows "resolve (env\<lparr>root := store (root env) c v\<rparr>) p = Inr c'"
  using assms walk_store_nondir[of "root env" "start_of env p" _ c' c v]
  by (auto simp: resolve_Inr_iff start_of_def)

lemma lookup_store_self:
  "c = [] \<or> is_dir_node (lookup t (butlast c)) \<Longrightarrow> lookup (store t c (Some x)) c = Some x"
  using lookup_store_at[of t c "Some x" "[]"] by (cases "c = []") auto

text \<open>What \<open>open_w\<close> has done when it succeeds.\<close>

lemma open_w_Inr:
  assumes "open_w env p = (Inr c, env1)"
  shows "resolve env p = Inr c \<and> \<not> is_dir_node (lookup (root env) c)
       \<and> (c = [] \<or> is_dir_node (lookup (root env) (butlast c)))
       \<and> (env1 = env \<and> lookup (root env) c = Some Device
           \<or> (\<exists>m. env1 = env\<lparr>root := store (root env) c (Some (File m []))\<rparr>
                  \<and> (lookup (root env) c = None \<and> m = file_mode env
                         \<and> may_change (root env) (butlast c)
                      \<or> (\<exists>b. lookup (root env) c = Some (File m b) \<and> may_write m))))"
proof -
  from assms have r: "resolve env p = Inr c"
    by (auto simp: open_w_def split: sum.splits option.splits node.splits if_splits)
  show ?thesis
  proof (cases "lookup (root env) c")
    case None
    with assms r show ?thesis
      by (auto simp: open_w_def is_dir_node_def may_change_def
          split: option.splits node.splits if_splits)
  next
    case (Some n)
    from lookup_parent_dir[OF Some] have "c = [] \<or> is_dir_node (lookup (root env) (butlast c))" .
    with assms r Some show ?thesis
      by (cases n) (auto simp: open_w_def is_dir_node_def split: if_splits)
  qed
qed

lemma write_text_success:
  assumes "write_text env p data = (Inr n, env')"
  shows "\<exists>c b. resolve env p = Inr c \<and> utf8_encode data = Some b
          \<and> resolve env' p = Inr c \<and> same_frame env env'
          \<and> (lookup (root env') c = Some Device \<or> (\<exists>m. lookup (root env') c = Some (File m b)))"
proof -
  from assms obtain c env1 where o: "open_w env p = (Inr c, env1)"
    by (auto simp: write_text_def split: prod.splits sum.splits)
  with assms obtain b where b: "utf8_encode data = Some b"
    and env': "env' = env1\<lparr>root := put_bytes (root env1) c b\<rparr>"
    by (auto simp: write_text_def split: option.splits)
  from open_w_Inr[OF o] have c: "resolve env p = Inr c"
    and nd: "\<not> is_dir_node (lookup (root env) c)"
    and par: "c = [] \<or> is_dir_node (lookup (root env) (butlast c))"
    and cases: "env1 = env \<and> lookup (root env) c = Some Device
           \<or> (\<exists>m. env1 = env\<lparr>root := store (root env) c (Some (File m []))\<rparr>)"
    by auto
  from cases show ?thesis
  proof
    assume d: "env1 = env \<and> lookup (root env) c = Some Device"
    then have "env' = env" by (simp add: env' put_bytes_def)
    with b c d show ?thesis by auto
  next
    assume "\<exists>m. env1 = env\<lparr>root := store (root env) c (Some (File m []))\<rparr>"
    then obtain m where env1: "env1 = env\<lparr>root := store (root env) c (Some (File m []))\<rparr>" by blast
    let ?t1 = "store (root env) c (Some (File m []))"
    have l1: "lookup ?t1 c = Some (File m [])" using par by (rule lookup_store_self)
    then have par1: "c = [] \<or> is_dir_node (lookup ?t1 (butlast c))" by (rule lookup_parent_dir)
    have pb: "put_bytes ?t1 c b = store ?t1 c (Some (File m b))"
      using l1 by (simp add: put_bytes_def)
    have l2: "lookup (store ?t1 c (Some (File m b))) c = Some (File m b)"
      using par1 by (rule lookup_store_self)
    have r1: "resolve env1 p = Inr c" unfolding env1 using c nd by (rule resolve_store_nondir)
    have nd1: "\<not> is_dir_node (lookup (root env1) c)" using l1 by (simp add: env1 is_dir_node_def)
    have r2: "resolve env' p = Inr c"
      using resolve_store_nondir[OF r1 nd1, of "Some (File m b)"] by (simp add: env' env1 pb)
    show ?thesis using b c l2 r2 by (auto simp: env' env1 pb same_frame_def)
  qed
qed

lemma os_mkdir_frame: "os_mkdir env p = Inr env' \<Longrightarrow> same_frame env env'"
  by (auto simp: os_mkdir_def split: sum.splits option.splits node.splits if_splits)

lemma mkdir_exist_ok_frame: "mkdir_exist_ok env p = (r, env') \<Longrightarrow> same_frame env env'"
  by (auto simp: mkdir_exist_ok_def split: sum.splits if_splits dest: os_mkdir_frame)

lemma mkdir_parents_frame: "mkdir_parents k env p = (r, env') \<Longrightarrow> same_frame env env'"
proof (induction k env p arbitrary: r env' rule: mkdir_parents.induct)
  case (1 k env p)
  show ?case
  proof (cases "os_mkdir env p")
    case (Inr e1)
    with "1.prems" show ?thesis by (simp add: mkdir_parents.simps[of k env p] os_mkdir_frame)
  next
    case (Inl x)
    show ?thesis
    proof (cases "is_FileNotFoundError x \<and> parts p \<noteq> [] \<and> k \<noteq> 0")
      case False
      with Inl "1.prems" show ?thesis
        by (auto simp: mkdir_parents.simps[of k env p] split: if_splits sum.splits nat.splits)
    next
      case True
      then obtain k' where k: "k = Suc k'" by (cases k) auto
      obtain r1 env1 where m: "mkdir_parents k' env (parent p) = (r1, env1)" by force
      have f1: "same_frame env env1" using "1.IH"[OF Inl _ _ k m] True by simp
      show ?thesis
      proof (cases r1)
        case (Inl y)
        with m True k \<open>os_mkdir env p = Inl x\<close> "1.prems" f1 show ?thesis
          by (simp add: mkdir_parents.simps[of "Suc k'" env p])
      next
        case (Inr u)
        with m True k \<open>os_mkdir env p = Inl x\<close> "1.prems"
        have "mkdir_exist_ok env1 p = (r, env')"
          by (simp add: mkdir_parents.simps[of "Suc k'" env p])
        then have "same_frame env1 env'" by (rule mkdir_exist_ok_frame)
        with f1 show ?thesis by (rule same_frame_trans)
      qed
    qed
  qed
qed

lemma not_success_denied: "\<not> prefix (lit ''Successfully'') (lit ''Error: Permission denied: '' @ path)"
  by (simp add: lit_def)

lemma not_success_error: "\<not> prefix (lit ''Successfully'') (lit ''Error writing file: '' @ m)"
  by (simp add: lit_def)

section \<open>Facts about editing a file\<close>

lemma encodable_append [simp]: "encodable (a @ b) \<longleftrightarrow> encodable a \<and> encodable b"
  by (simp add: encodable_def)

lemma encodable_take: "encodable s \<Longrightarrow> encodable (take i s)"
  by (auto simp: encodable_def list_all_iff dest: in_set_takeD)

lemma encodable_drop: "encodable s \<Longrightarrow> encodable (drop i s)"
  by (auto simp: encodable_def list_all_iff dest: in_set_dropD)

lemma read_text_facts:
  assumes "read_text env p = Inr content"
  shows "encodable content \<and> exists env p = Inr True
       \<and> (\<forall>c m b. resolve env p = Inr c \<and> lookup (root env) c = Some (File m b) \<longrightarrow>
             may_read m \<and> (\<exists>s. utf8_decode b = Some s \<and> content = universal_newlines s))"
proof -
  from assms obtain b where rb: "read_bytes env p = Inr b"
    by (auto simp: read_text_def split: sum.splits)
  with assms obtain s where s: "utf8_decode b = Some s" "content = universal_newlines s"
    by (auto simp: read_text_def split: option.splits)
  from rb obtain c n where c: "resolve env p = Inr c" "lookup (root env) c = Some n"
    by (auto simp: read_bytes_def split: sum.splits option.splits node.splits if_splits)
  have "encodable content"
    using s utf8_decode_encodable[of b s]
    by (simp add: universal_newlines_def translate_newlines_encodable)
  moreover have "exists env p = Inr True" using c by (auto simp: exists_True_iff)
  moreover have "may_read m \<and> (\<exists>s. utf8_decode b' = Some s \<and> content = universal_newlines s)"
    if "resolve env p = Inr c'" "lookup (root env) c' = Some (File m b')" for c' m b'
    using that rb s by (auto simp: read_bytes_def split: if_splits)
  ultimately show ?thesis by blast
qed

lemma EditFileTool_not_found:
  assumes "expanduser env (Path path) = Inr file_path"
    and "read_text env file_path = Inr content"
    and "occurrences old_text content = []"
  shows "EditFileTool_execute env path old_text new_text
     = (Inr (lit ''Error: old_text not found in file. Make sure it matches exactly.''), env)"
proof -
  from read_text_facts[OF assms(2)] have ex: "exists env file_path = Inr True" by blast
  from assms(3) have "\<not> py_in old_text content"
    by (simp add: py_in_def py_find_occurrences)
  with assms ex show ?thesis
    by (simp add: EditFileTool_execute_def EditFileTool_try_def handlers_def)
qed

lemma kind_store_file:
  assumes "\<not> is_dir_node (lookup t c)" "c = [] \<or> is_dir_node (lookup t (butlast c))"
  shows "kind_at (store t c (Some (File m b))) q = (if q = c then IsFile m b else kind_at t q)"
proof (cases "prefix c q")
  case False
  then show ?thesis by (auto simp: kind_store_other)
next
  case True
  then obtain r where q: "q = c @ r" by (auto simp: prefix_def)
  have below: "r \<noteq> [] \<Longrightarrow> lookup t (c @ r) = None"
  proof (cases "lookup t c")
    case None
    then show ?thesis by (simp add: lookup_None_below)
  next
    case (Some n)
    assume "r \<noteq> []"
    with Some assms(1) show ?thesis by (simp add: lookup_below_nondir)
  qed
  have new: "lookup (store t c (Some (File m b))) (c @ r) = lookup (File m b) r"
  proof (cases "c = []")
    case True
    then show ?thesis by simp
  next
    case False
    with assms(2) show ?thesis using lookup_store_at[of t c "Some (File m b)" r] by simp
  qed
  show ?thesis
    using below new by (cases r) (auto simp: q kind_at_def kind_of_def)
qed

lemma write_text_file:
  assumes c: "resolve env p = Inr c" and l: "lookup (root env) c = Some (File m b0)"
    and w: "may_write m" and b: "utf8_encode data = Some b"
  shows "\<exists>env'. write_text env p data = (Inr (length data), env') \<and> same_frame env env'
           \<and> resolve env' p = Inr c
           \<and> (\<forall>q. kind_at (root env') q = (if q = c then IsFile m b else kind_at (root env) q))"
proof -
  let ?t1 = "store (root env) c (Some (File m []))"
  let ?env1 = "env\<lparr>root := ?t1\<rparr>"
  have o: "open_w env p = (Inr c, ?env1)" using c l w by (simp add: open_w_def)
  have nd: "\<not> is_dir_node (lookup (root env) c)" using l by (simp add: is_dir_node_def)
  have par: "c = [] \<or> is_dir_node (lookup (root env) (butlast c))" using l by (rule lookup_parent_dir)
  have l1: "lookup ?t1 c = Some (File m [])" using par by (rule lookup_store_self)
  then have nd1: "\<not> is_dir_node (lookup ?t1 c)" by (simp add: is_dir_node_def)
  have par1: "c = [] \<or> is_dir_node (lookup ?t1 (butlast c))" using l1 by (rule lookup_parent_dir)
  let ?t2 = "store ?t1 c (Some (File m b))"
  let ?env' = "env\<lparr>root := ?t2\<rparr>"
  have pb: "put_bytes ?t1 c b = ?t2" using l1 by (simp add: put_bytes_def)
  have wt: "write_text env p data = (Inr (length data), ?env')"
    using o b pb by (simp add: write_text_def)
  have r1: "resolve ?env1 p = Inr c" using c nd by (rule resolve_store_nondir)
  have r2: "resolve ?env' p = Inr c"
    using resolve_store_nondir[OF r1, of c "Some (File m b)"] nd1 by simp
  have k: "kind_at ?t2 q = (if q = c then IsFile m b else kind_at (root env) q)" for q
    using kind_store_file[OF nd1 par1, of m b q] kind_store_file[OF nd par, of m "[]" q] by simp
  show ?thesis using wt r2 k by (intro exI[of _ ?env']) simp
qed

section \<open>Facts about making directories\<close>

lemma os_path_comps: "os_path p = Inr comps \<Longrightarrow> comps = map fsenc (parts p)"
  by (auto simp: os_path_def split: option.splits if_splits)

lemma way_0 [simp]: "way env p 0 = start_of env p"
  by (simp add: way_def)

lemma way_Suc:
  "j < length (parts p) \<Longrightarrow> way env p (Suc j) = step (way env p j) (fsenc (parts p ! j))"
  by (simp add: way_def take_Suc_conv_app_nth)

lemma way_parent:
  "j < length (parts p) \<Longrightarrow> way env (parent p) j = way env p j"
  unfolding way_def start_of_parent
  by (simp add: parent_def map_butlast take_butlast)

lemma way_frame: "same_frame env env' \<Longrightarrow> way env' p j = way env p j"
  by (simp add: way_def start_of_frame)

lemma walk_missing:
  assumes "i < length xs"
    and "\<forall>j<i. searchable t (lexwalk cur (take j xs)) \<and> name_ok (xs ! j)"
    and "lookup t (lexwalk cur (take i xs)) = None"
  shows "walk t cur xs = Inl ENOENT"
proof -
  have "walk t cur (take i xs) = Inr (lexwalk cur (take i xs))"
    using assms(1,2) by (simp add: walk_Inr_iff)
  moreover obtain x r where "drop i xs = x # r"
    using assms(1) by (cases "drop i xs") auto
  ultimately have "walk t cur (take i xs @ drop i xs) = Inl ENOENT"
    using assms(3) by (simp add: walk_append walk_Cons)
  then show ?thesis by simp
qed

lemma resolve_way:
  assumes "os_path p = Inr comps"
    and "\<forall>j<length (parts p). searchable (root env) (way env p j)"
    and "\<forall>x\<in>set (parts p). name_ok (fsenc x)"
  shows "resolve env p = Inr (way env p (length (parts p)))"
proof -
  have c: "comps = map fsenc (parts p)" using assms(1) by (rule os_path_comps)
  have "walk (root env) (start_of env p) comps = Inr (lexwalk (start_of env p) comps)"
    using assms(2,3) by (auto simp: walk_Inr_iff c way_def)
  then show ?thesis using assms(1) by (simp add: resolve_start c way_def)
qed

lemma resolve_missing:
  assumes "os_path p = Inr comps" and "i < length (parts p)"
    and "\<forall>j<i. searchable (root env) (way env p j)"
    and "\<forall>x\<in>set (parts p). name_ok (fsenc x)"
    and "kind_at (root env) (way env p i) = Missing"
  shows "resolve env p = Inl (OSError ENOENT (str_path p))"
proof -
  have c: "comps = map fsenc (parts p)" using assms(1) by (rule os_path_comps)
  have "walk (root env) (start_of env p) comps = Inl ENOENT"
  proof (rule walk_missing[of i])
    show "i < length comps" using assms(2) by (simp add: c)
    show "\<forall>j<i. searchable (root env) (lexwalk (start_of env p) (take j comps)) \<and> name_ok (comps ! j)"
      using assms(2,3,4) by (auto simp: c way_def)
    show "lookup (root env) (lexwalk (start_of env p) (take i comps)) = None"
      using assms(5) by (simp add: c way_def kind_at_missing_iff)
  qed
  then show ?thesis using assms(1) by (simp add: resolve_start)
qed

lemma kind_store_new_dir:
  assumes "lookup t c = None" "is_dir_node (lookup t (butlast c))" "c \<noteq> []"
  shows "kind_at (store t c (Some (Dir m []))) q = (if q = c then IsDir m else kind_at t q)"
proof (cases "prefix c q")
  case False
  then show ?thesis by (auto simp: kind_store_other)
next
  case True
  then obtain r where q: "q = c @ r" by (auto simp: prefix_def)
  have "lookup t (c @ r) = None" using assms(1) by (rule lookup_None_below)
  then show ?thesis
    using lookup_store_at[OF assms(2,3), of "Some (Dir m [])" r]
    by (cases r) (auto simp: q kind_at_def kind_of_def)
qed

text \<open>The last step of \<^verbatim>\<open>mkdir\<close>, when every directory on the way is there.\<close>

lemma way_last_missing:
  assumes ne: "parts p \<noteq> []"
    and s: "searchable (root env) (way env p (length (parts p) - 1))"
    and m: "kind_at (root env) (way env p (length (parts p))) = Missing"
  shows "way env p (length (parts p)) = way env p (length (parts p) - 1) @ [fsenc (last (parts p))]"
proof -
  let ?n = "length (parts p)"
  from ne obtain n' where n: "?n = Suc n'" by (cases "parts p") auto
  have l: "parts p ! n' = last (parts p)" using ne n by (simp add: last_conv_nth)
  have w: "way env p ?n = step (way env p n') (fsenc (last (parts p)))"
    using way_Suc[of n' p env] n l by simp
  show ?thesis
  proof (cases "fsenc (last (parts p)) = lit ''..''")
    case False
    then show ?thesis using w n by (simp add: step_def)
  next
    case True
    from s n obtain x where "lookup (root env) (way env p n') = Some x"
      by (auto simp: searchable_def split: option.splits)
    then have "lookup (root env) (butlast (way env p n')) \<noteq> None"
      by (rule lookup_prefix_exists) (simp add: prefixeq_butlast)
    with m w True show ?thesis by (simp add: step_def kind_at_missing_iff)
  qed
qed

lemma mkdir_last:
  assumes op: "os_path p = Inr comps" and ne: "parts p \<noteq> []"
    and s: "\<forall>j<length (parts p). searchable (root env) (way env p j)"
    and nm: "\<forall>x\<in>set (parts p). name_ok (fsenc x)"
    and room: "kind_at (root env) (way env p (length (parts p))) = Missing
               \<longrightarrow> may_change (root env) (way env p (length (parts p) - 1))"
    and d: "kind_at (root env) (way env p (length (parts p))) = Missing
            \<or> is_dir_node (lookup (root env) (way env p (length (parts p))))"
  shows "\<exists>env'. mkdir_exist_ok env p = (Inr (), env') \<and> mkdir_parents k env p = (Inr (), env')
          \<and> same_frame env env'
          \<and> (\<forall>q. kind_at (root env') q =
                 (if q = way env p (length (parts p)) \<and> kind_at (root env) q = Missing
                  then IsDir (dir_mode env) else kind_at (root env) q))"
proof -
  let ?n = "length (parts p)" and ?t = "root env"
  let ?c = "way env p ?n"
  have r: "resolve env p = Inr ?c" using op s nm by (rule resolve_way)
  show ?thesis
  proof (cases "kind_at ?t ?c = Missing")
    case True
    have sl: "searchable ?t (way env p (?n - 1))" using s ne by simp
    have c: "?c = way env p (?n - 1) @ [fsenc (last (parts p))]"
      using ne sl True by (rule way_last_missing)
    then have bl: "butlast ?c = way env p (?n - 1)" and cne: "?c \<noteq> []" by simp_all
    from room True obtain m es where par: "lookup ?t (butlast ?c) = Some (Dir m es)" "may_write m"
      unfolding bl by (auto simp: may_change_def split: option.splits node.splits)
    let ?env' = "env\<lparr>root := store ?t ?c (Some (Dir (dir_mode env) []))\<rparr>"
    have l: "lookup ?t ?c = None" using True by (simp add: kind_at_missing_iff)
    have mk: "os_mkdir env p = Inr ?env'"
      using r l par ne by (simp add: os_mkdir_def)
    have k: "kind_at (root ?env') q = (if q = ?c then IsDir (dir_mode env) else kind_at ?t q)" for q
      using kind_store_new_dir[OF l _ cne, of "dir_mode env" q] par(1)
      by (simp add: is_dir_node_def)
    show ?thesis
      using mk k True
      by (intro exI[of _ ?env']) (auto simp: mkdir_exist_ok_def mkdir_parents.simps[of k env p])
  next
    case False
    with d obtain m es where l: "lookup ?t ?c = Some (Dir m es)" by (auto elim: is_dir_nodeE)
    have mk: "os_mkdir env p = Inl (OSError EEXIST (str_path p))"
      using r l by (simp add: os_mkdir_def)
    have isd: "is_dir env p = Inr True" using r l by (auto simp: is_dir_True_iff)
    show ?thesis
      using mk isd False
      by (intro exI[of _ env]) (auto simp: mkdir_exist_ok_def mkdir_parents.simps[of k env p])
  qed
qed

lemma creatable_parent:
  assumes "creatable (Suc k) env p" "parts p \<noteq> []"
  shows "creatable k env (parent p)"
proof -
  let ?n = "length (parts p)"
  from assms(2) obtain n' where n: "?n = Suc n'" by (cases "parts p") auto
  have lp: "length (parts (parent p)) = n'" using assms(2) n by (simp add: parent_def)
  have wp: "j \<le> n' \<Longrightarrow> way env (parent p) j = way env p j" for j
    using way_parent[of j p env] n by simp
  from assms(1) obtain comps where "os_path p = Inr comps" by (auto simp: creatable_def)
  then have 1: "\<exists>comps. os_path (parent p) = Inr comps" using os_path_parent by blast
  have 2: "\<forall>x\<in>set (parts (parent p)). name_ok (fsenc x)"
    using assms by (auto simp: creatable_def parent_def dest: in_set_butlastD)
  have 3: "kind_at (root env) (way env (parent p) 0) \<noteq> Missing"
    using assms(1) by (simp add: creatable_def)
  have all: "passable env (way env p j)
           \<and> (kind_at (root env) (way env p (Suc j)) = Missing \<longrightarrow> has_room env (way env p j))
           \<and> (kind_at (root env) (way env p j) = Missing \<longrightarrow> ?n - j \<le> Suc k)"
    if "j < ?n" for j using assms(1) that by (simp add: creatable_def)
  have 4: "passable env (way env (parent p) j)
           \<and> (kind_at (root env) (way env (parent p) (Suc j)) = Missing
                \<longrightarrow> has_room env (way env (parent p) j))
           \<and> (kind_at (root env) (way env (parent p) j) = Missing \<longrightarrow> n' - j \<le> k)"
    if "j < n'" for j
    using all[of j] that n wp[of j] wp[of "Suc j"] by auto
  have "passable env (way env p n')" using all[of n'] n by simp
  then have 5: "kind_at (root env) (way env (parent p) n') = Missing
        \<or> is_dir_node (lookup (root env) (way env (parent p) n'))"
    using wp[of n'] by (auto simp: passable_def dest: searchable_dir)
  show ?thesis using 1 2 3 4 5 by (simp add: creatable_def lp)
qed

lemma mkdir_parents_creates:
  assumes "creatable k env p"
  shows "\<exists>env'. mkdir_parents k env p = (Inr (), env') \<and> same_frame env env'
          \<and> (\<forall>q. kind_at (root env') q =
                 (if kind_at (root env) q = Missing \<and> (\<exists>j\<le>length (parts p). q = way env p j)
                  then IsDir (dir_mode env) else kind_at (root env) q))"
  using assms
proof (induction "length (parts p)" arbitrary: p k)
  case 0
  then have np: "parts p = []" by simp
  from "0.prems" obtain comps where op: "os_path p = Inr comps" by (auto simp: creatable_def)
  have "walk (root env) (start_of env p) comps = Inr (start_of env p)"
    using os_path_comps[OF op] np by simp
  then have r: "resolve env p = Inr (start_of env p)" using op by (simp add: resolve_start)
  from "0.prems" np obtain m es where l: "lookup (root env) (start_of env p) = Some (Dir m es)"
    by (auto simp: creatable_def elim: is_dir_nodeE)
  have "os_mkdir env p = Inl (OSError EEXIST (str_path p))" using r l by (simp add: os_mkdir_def)
  moreover have "is_dir env p = Inr True" using r l by (auto simp: is_dir_True_iff)
  ultimately have "mkdir_parents k env p = (Inr (), env)"
    by (simp add: mkdir_parents.simps[of k env p])
  moreover have "kind_at (root env) (start_of env p) \<noteq> Missing"
    using l by (simp add: kind_at_missing_iff)
  ultimately show ?case using np by (intro exI[of _ env]) auto
next
  case (Suc n')
  let ?t = "root env"
  have n: "length (parts p) = Suc n'" using Suc.hyps(2) by simp
  then have ne: "parts p \<noteq> []" by auto
  from Suc.prems obtain comps where op: "os_path p = Inr comps" by (auto simp: creatable_def)
  have nm: "\<forall>x\<in>set (parts p). name_ok (fsenc x)" using Suc.prems by (simp add: creatable_def)
  have all: "passable env (way env p j)
           \<and> (kind_at ?t (way env p (Suc j)) = Missing \<longrightarrow> has_room env (way env p j))
           \<and> (kind_at ?t (way env p j) = Missing \<longrightarrow> Suc n' - j \<le> k)"
    if "j < Suc n'" for j using Suc.prems that n by (simp add: creatable_def)
  have d: "kind_at ?t (way env p (Suc n')) = Missing \<or> is_dir_node (lookup ?t (way env p (Suc n')))"
    using Suc.prems n by (simp add: creatable_def)
  show ?case
  proof (cases "\<exists>j<Suc n'. kind_at ?t (way env p j) = Missing")
    case False
    then have s: "\<forall>j<length (parts p). searchable ?t (way env p j)"
      using all n by (auto simp: passable_def)
    have room: "kind_at ?t (way env p (length (parts p))) = Missing
               \<longrightarrow> may_change ?t (way env p (length (parts p) - 1))"
      using all[of n'] False n by (auto simp: has_room_def)
    from mkdir_last[OF op ne s nm room, of k] d n obtain env'
      where m: "mkdir_parents k env p = (Inr (), env')" and fr: "same_frame env env'"
        and kk: "\<And>q. kind_at (root env') q =
                 (if q = way env p (Suc n') \<and> kind_at ?t q = Missing
                  then IsDir (dir_mode env) else kind_at ?t q)"
      by auto
    have "kind_at (root env') q =
        (if kind_at ?t q = Missing \<and> (\<exists>j\<le>length (parts p). q = way env p j)
         then IsDir (dir_mode env) else kind_at ?t q)" for q
      using kk[of q] False n by (auto simp: le_Suc_eq less_Suc_eq_le)
    with m fr show ?thesis by blast
  next
    case True
    define i where "i = (LEAST j. j < Suc n' \<and> kind_at ?t (way env p j) = Missing)"
    from True have i: "i < Suc n'" "kind_at ?t (way env p i) = Missing"
      unfolding i_def by (metis (mono_tags, lifting) LeastI_ex)+
    have before: "kind_at ?t (way env p j) \<noteq> Missing" if "j < i" for j
      using that i(1) not_less_Least[of j "\<lambda>j. j < Suc n' \<and> kind_at ?t (way env p j) = Missing"]
      unfolding i_def by auto
    have si: "\<forall>j<i. searchable ?t (way env p j)"
    proof (intro allI impI)
      fix j assume j: "j < i"
      then have "j < Suc n'" using i(1) by simp
      from all[OF this] before[OF j] show "searchable ?t (way env p j)"
        by (simp add: passable_def)
    qed
    have r: "resolve env p = Inl (OSError ENOENT (str_path p))"
      using op _ si nm i(2) by (rule resolve_missing) (use i(1) n in simp)
    have mk: "os_mkdir env p = Inl (OSError ENOENT (str_path p))"
      using r by (simp add: os_mkdir_def)
    from all[of i] i have "Suc n' - i \<le> k" by simp
    with i(1) obtain k' where k: "k = Suc k'" by (cases k) auto
    have cp: "creatable k' env (parent p)" using Suc.prems ne unfolding k by (rule creatable_parent)
    have lp: "n' = length (parts (parent p))" using ne n by (simp add: parent_def)
    from Suc.hyps(1)[OF lp cp] obtain env1
      where m1: "mkdir_parents k' env (parent p) = (Inr (), env1)" and fr1: "same_frame env env1"
        and k1: "\<And>q. kind_at (root env1) q =
                 (if kind_at ?t q = Missing \<and> (\<exists>j\<le>n'. q = way env (parent p) j)
                  then IsDir (dir_mode env) else kind_at ?t q)"
      unfolding lp[symmetric] by blast
    have wp: "j \<le> n' \<Longrightarrow> way env (parent p) j = way env p j" for j
      using way_parent[of j p env] n by simp
    have k1': "kind_at (root env1) q =
                 (if kind_at ?t q = Missing \<and> (\<exists>j\<le>n'. q = way env p j)
                  then IsDir (dir_mode env) else kind_at ?t q)" for q
      using k1[of q] wp by (metis (no_types, lifting))
    have w1: "way env1 p j = way env p j" for j using fr1 by (rule way_frame)
    have dm1: "dir_mode env1 = dir_mode env" using same_frame_fields[OF fr1] by simp
    have s1: "\<forall>j<length (parts p). searchable (root env1) (way env1 p j)"
    proof (intro allI impI)
      fix j assume "j < length (parts p)"
      then have j: "j < Suc n'" using n by simp
      then have jn: "j \<le> n'" by simp
      from all[OF j] have "passable env (way env p j)" by simp
      then show "searchable (root env1) (way env1 p j)"
        using k1'[of "way env p j"] jn
        by (auto simp: passable_def searchable_kind w1)
    qed
    have room1: "kind_at (root env1) (way env1 p (length (parts p))) = Missing
               \<longrightarrow> may_change (root env1) (way env1 p (length (parts p) - 1))"
    proof
      assume a: "kind_at (root env1) (way env1 p (length (parts p))) = Missing"
      then have "kind_at ?t (way env p (Suc n')) = Missing"
        using k1'[of "way env p (Suc n')"] n by (auto simp: w1 split: if_splits)
      with all[of n'] have "has_room env (way env p n')" by simp
      then show "may_change (root env1) (way env1 p (length (parts p) - 1))"
        using k1'[of "way env p n'"] n
        by (auto simp: has_room_def may_change_kind w1)
    qed
    have d1: "kind_at (root env1) (way env1 p (length (parts p))) = Missing
            \<or> is_dir_node (lookup (root env1) (way env1 p (length (parts p))))"
      using d k1'[of "way env p (Suc n')"] n
      by (auto simp: w1 kind_at_dir_iff[symmetric] split: if_splits)
    from mkdir_last[OF op ne s1 nm room1 d1, of 0] obtain env'
      where m2: "mkdir_exist_ok env1 p = (Inr (), env')" and fr2: "same_frame env1 env'"
        and k2: "\<And>q. kind_at (root env') q =
                 (if q = way env p (Suc n') \<and> kind_at (root env1) q = Missing
                  then IsDir (dir_mode env) else kind_at (root env1) q)"
      unfolding w1 dm1 n by blast
    have m: "mkdir_parents k env p = (Inr (), env')"
      unfolding k using mk ne m1 m2 by (simp add: mkdir_parents.simps[of "Suc k'" env p])
    have kk: "kind_at (root env') q =
        (if kind_at ?t q = Missing \<and> (\<exists>j\<le>length (parts p). q = way env p j)
         then IsDir (dir_mode env) else kind_at ?t q)" for q
      unfolding n k2[of q] k1'[of q] k1'[of "way env p (Suc n')"]
      by (auto simp: le_Suc_eq)
    from m same_frame_trans[OF fr1 fr2] kk show ?thesis by blast
  qed
qed


lemma made_is_dir:
  assumes c: "creatable k env p" and fr: "same_frame env env'"
    and kk: "\<And>q. kind_at (root env') q =
                 (if kind_at (root env) q = Missing \<and> (\<exists>j\<le>length (parts p). q = way env p j)
                  then IsDir (dir_mode env) else kind_at (root env) q)"
  shows "is_dir env' p = Inr True"
proof -
  from c obtain comps where op: "os_path p = Inr comps" by (auto simp: creatable_def)
  have nm: "\<forall>x\<in>set (parts p). name_ok (fsenc x)" using c by (simp add: creatable_def)
  have w: "way env' p j = way env p j" for j using fr by (rule way_frame)
  have s: "\<forall>j<length (parts p). searchable (root env') (way env' p j)"
  proof (intro allI impI)
    fix j assume j: "j < length (parts p)"
    with c have "passable env (way env p j)" by (simp add: creatable_def)
    moreover have "\<exists>i\<le>length (parts p). way env p j = way env p i"
      using j by (intro exI[of _ j]) simp
    ultimately show "searchable (root env') (way env' p j)"
      using kk[of "way env p j"] by (auto simp: passable_def searchable_kind w)
  qed
  have r: "resolve env' p = Inr (way env p (length (parts p)))"
    using resolve_way[OF op s nm] by (simp add: w)
  from c have "kind_at (root env) (way env p (length (parts p))) = Missing
      \<or> is_dir_node (lookup (root env) (way env p (length (parts p))))"
    by (simp add: creatable_def)
  moreover have "\<exists>i\<le>length (parts p). way env p (length (parts p)) = way env p i"
    by (intro exI[of _ "length (parts p)"]) simp
  ultimately have "\<exists>m. kind_at (root env') (way env p (length (parts p))) = IsDir m"
    using kk[of "way env p (length (parts p))"] by (auto simp: kind_at_dir_iff[symmetric])
  then show ?thesis using r by (auto simp: is_dir_True_iff kind_at_dir_lookup)
qed

section \<open>C1: the number in the message of WriteFileTool\<close>

text \<open>
  C1.  The claim: a successful \<^verbatim>\<open>WriteFileTool.execute\<close> returns
  \<^verbatim>\<open>"Successfully wrote {N} bytes to {path}"\<close> with \<open>N\<close> the number of bytes of the content
  in its UTF-8 encoding.  The code prints \<^verbatim>\<open>len(content)\<close>, the number of code points.
  Writing the one character U+00E9 to \<^verbatim>\<open>f\<close> in an empty root directory puts the two bytes
  \<open>C3 A9\<close> into the file and reports \<^verbatim>\<open>1 bytes\<close>.
\<close>

theorem WriteFileTool_counts_code_points:
  "WriteFileTool_execute (sample_env (Dir rwx [])) (lit ''f'') [0xE9]
     = (Inr (lit ''Successfully wrote 1 bytes to f''),
        sample_env (Dir rwx [(lit ''f'', File rw [0xC3, 0xA9])]))
   \<and> utf8_encode [0xE9] = Some [0xC3, 0xA9]
   \<and> length [0xC3, 0xA9 :: nat] = 2"
  by (simp add: WriteFileTool_execute_def WriteFileTool_try_def run_defs)

section \<open>C2: every call returns a string\<close>

text \<open>
  C2.  For every tool of the registry, every environment and all values of its string
  arguments, \<^verbatim>\<open>execute\<close> returns a string: no exception leaves it.  The handlers of each
  tool catch \<^verbatim>\<open>PermissionError\<close> and every other \<^verbatim>\<open>Exception\<close>, and all that the library
  calls raise derives from \<^verbatim>\<open>Exception\<close>.
\<close>

theorem execute_returns_string: "\<exists>s env'. execute env c = (Inr s, env')"
proof -
  have h: "\<And>r denied other. \<exists>s env'. handlers r denied other = (Inr s, env')"
    by (auto simp: handlers_def split: prod.splits sum.splits)
  show ?thesis
    by (cases c)
      (simp_all add: ReadFileTool_execute_def WriteFileTool_execute_def EditFileTool_execute_def
        ListDirTool_execute_def RenameFileTool_execute_def MoveFileTool_execute_def
        CopyFileTool_execute_def CreateDirTool_execute_def h)
qed

theorem execute_returns_string_witness:
  "(\<exists>s env'. execute (sample_env (Dir rwx [(lit ''p'', File (Mode False False False) [])])) (read_file (lit ''p''))
      = (Inr s, env'))
   \<and> fst (execute (sample_env (Dir rwx [(lit ''p'', File (Mode False False False) [])])) (read_file (lit ''p'')))
      = Inr (lit ''Error: Permission denied: p'')
   \<and> fst (execute (sample_env (Dir rwx [])) (read_file (lit ''nowhere'')))
      = Inr (lit ''Error: File not found: nowhere'')
   \<and> fst (execute (sample_env (Dir rwx [(lit ''a'', Dir rwx [])])) (rename_file (lit ''a'') (lit ''b/c'')))
      = Inr (lit ''Error: new_name should be just a name, not a path'')"
  using execute_returns_string [of "sample_env (Dir rwx [(lit ''p'', File (Mode False False False) [])])"
      "read_file (lit ''p'')"]
  by (simp add: ReadFileTool_execute_def ReadFileTool_try_def RenameFileTool_execute_def
      RenameFileTool_try_def run_defs)

section \<open>C3: an old text that occurs more than once\<close>

text \<open>
  C3.  The claim: when the content of the file contains \<^verbatim>\<open>old_text\<close> more than once,
  \<^verbatim>\<open>EditFileTool.execute\<close> returns a warning and leaves the file as it is.  The code counts
  with \<^verbatim>\<open>content.count(old_text)\<close>, which skips occurrences that overlap one it has counted.
  In \<^verbatim>\<open>aaa\<close> the text \<^verbatim>\<open>aa\<close> occurs at the positions 0 and 1, \<^verbatim>\<open>count\<close> answers 1, and the
  edit is applied to the first of them: the file becomes \<^verbatim>\<open>Xa\<close>.
\<close>

theorem EditFileTool_overlapping_occurrences:
  "occurrences (lit ''aa'') (lit ''aaa'') = [0, 1]
   \<and> py_count (lit ''aa'') (lit ''aaa'') = 1
   \<and> EditFileTool_execute (sample_env (Dir rwx [(lit ''g'', File rw (lit ''aaa''))]))
        (lit ''g'') (lit ''aa'') (lit ''X'')
      = (Inr (lit ''Successfully edited g''),
         sample_env (Dir rwx [(lit ''g'', File rw (lit ''Xa''))]))"
  by (simp add: EditFileTool_execute_def EditFileTool_try_def run_defs occurrences_def)

text \<open>
  What the code does keep: when \<^verbatim>\<open>count\<close> finds more than one occurrence, the warning is
  returned and nothing is written; \<^verbatim>\<open>foo foo\<close> with \<^verbatim>\<open>foo\<close> is such a case.
\<close>

lemma EditFileTool_counted_twice_unchanged:
  assumes "expanduser env (Path path) = Inr file_path"
    and "read_text env file_path = Inr content"
    and "1 < py_count old_text content"
  shows "EditFileTool_execute env path old_text new_text
     = (Inr (lit ''Warning: old_text appears '' @ str_nat (py_count old_text content)
             @ lit '' times. Please provide more context to make it unique.''), env)"
proof -
  from assms(2) have ex: "exists env file_path = Inr True"
    by (auto simp: read_text_def read_bytes_def exists_True_iff
        split: sum.splits option.splits node.splits if_splits)
  have "py_count old_text content \<le> length (occurrences old_text content)"
    by (rule py_count_le)
  with assms(3) have "occurrences old_text content \<noteq> []" by auto
  then have "py_in old_text content"
    by (simp add: py_in_def py_find_occurrences split: list.splits)
  with assms ex show ?thesis
    by (simp add: EditFileTool_execute_def EditFileTool_try_def handlers_def)
qed

lemma EditFileTool_foo_foo:
  "EditFileTool_execute (sample_env (Dir rwx [(lit ''g'', File rw (lit ''foo foo''))]))
        (lit ''g'') (lit ''foo'') (lit ''X'')
      = (Inr (lit ''Warning: old_text appears 2 times. Please provide more context to make it unique.''),
         sample_env (Dir rwx [(lit ''g'', File rw (lit ''foo foo''))]))"
  by (simp add: EditFileTool_execute_def EditFileTool_try_def run_defs)

section \<open>C4: an old text that occurs once, or not at all\<close>




text \<open>
  A file that may be read but not written is left as it is, and so is a device, which reads
  as the empty text and in which the empty text occurs once.
\<close>

lemma EditFileTool_read_only_file:
  "EditFileTool_execute
       (sample_env (Dir rwx [(lit ''g'', File (Mode True False False) (lit ''a-b-c''))]))
       (lit ''g'') (lit ''b'') (lit ''X'')
     = (Inr (lit ''Error: Permission denied: g''),
        sample_env (Dir rwx [(lit ''g'', File (Mode True False False) (lit ''a-b-c''))]))"
  by (simp add: EditFileTool_execute_def EditFileTool_try_def run_defs)

lemma EditFileTool_device:
  "occurrences [] [] = [0]
   \<and> EditFileTool_execute (sample_env (Dir rwx [(lit ''null'', Device)])) (lit ''null'') [] (lit ''X'')
     = (Inr (lit ''Successfully edited null''), sample_env (Dir rwx [(lit ''null'', Device)]))"
  by (simp add: EditFileTool_execute_def EditFileTool_try_def run_defs occurrences_def)

section \<open>C5: reading what was written\<close>

text \<open>
  C5.  The claim: reading a path right after a successful write returns exactly the
  written content.  \<^verbatim>\<open>read_text\<close> opens the file in text mode, which turns \<^verbatim>\<open>\r\n\<close> and \<^verbatim>\<open>\r\<close>
  into \<^verbatim>\<open>\n\<close>, and \<^verbatim>\<open>write_text\<close> writes them as they are.  Moreover a write succeeds on a
  device such as \<^verbatim>\<open>/dev/null\<close> and on a file that the process may write but not read, where
  the read then answers with an error.  As amended: after a write that returned its success
  message, when the path then names a regular file that the process may read, the read
  returns the content with its line ends translated, which is the content itself when it
  has no carriage return.
\<close>

theorem write_then_read:
  assumes "WriteFileTool_execute env path content = (Inr msg, env')"
    and "prefix (lit ''Successfully'') msg"
    and "expanduser env (Path path) = Inr file_path"
    and "stat env' file_path = Inr (File m b)" and "may_read m"
  shows "ReadFileTool_execute env' path = (Inr (universal_newlines content), env')
       \<and> (13 \<notin> set content \<longrightarrow> ReadFileTool_execute env' path = (Inr content, env'))"
proof -
  from assms(1,2) have t: "WriteFileTool_try env path content = (Inr msg, env')"
    by (auto simp: WriteFileTool_execute_def handlers_def not_success_denied not_success_error
        split: prod.splits sum.splits if_splits)
  with assms(3) obtain u env1
    where m: "mkdir_parents (recursion_limit env) env (parent file_path) = (Inr u, env1)"
    by (auto simp: WriteFileTool_try_def split: sum.splits prod.splits)
  with t assms(3) obtain n where w: "write_text env1 file_path content = (Inr n, env')"
    by (auto simp: WriteFileTool_try_def split: sum.splits prod.splits)
  from write_text_success[OF w] obtain c b' where
    b': "utf8_encode content = Some b'" and r: "resolve env' file_path = Inr c"
    and l: "lookup (root env') c = Some Device \<or> (\<exists>m. lookup (root env') c = Some (File m b'))"
    and f1: "same_frame env1 env'"
    by blast
  from assms(4) r have lf: "lookup (root env') c = Some (File m b)" by (simp add: stat_Inr_iff)
  with l have bb: "b = b'" by auto
  have "same_frame env env'" using mkdir_parents_frame[OF m] f1 by (rule same_frame_trans)
  then have e: "expanduser env' (Path path) = Inr file_path"
    using assms(3) by (simp add: expanduser_frame)
  have d: "utf8_decode b = Some content" using b' bb by (simp add: utf8_roundtrip)
  have ex: "exists env' file_path = Inr True" using r lf by (auto simp: exists_True_iff)
  have isf: "is_file env' file_path = Inr True" using r lf by (auto simp: is_file_True_iff)
  have "read_text env' file_path = Inr (universal_newlines content)"
    using r lf d assms(5) by (simp add: read_text_def read_bytes_def)
  then have "ReadFileTool_try env' path = (Inr (universal_newlines content), env')"
    using e ex isf by (simp add: ReadFileTool_try_def)
  then have "ReadFileTool_execute env' path = (Inr (universal_newlines content), env')"
    by (simp add: ReadFileTool_execute_def handlers_def)
  then show ?thesis by (simp add: universal_newlines_no_cr)
qed

theorem write_then_read_witness:
  "ReadFileTool_execute
      (sample_env (Dir rwx [(lit ''d'', Dir rwx [(lit ''f'', File rw (lit ''hi''))])])) (lit ''d/f'')
     = (Inr (lit ''hi''),
        sample_env (Dir rwx [(lit ''d'', Dir rwx [(lit ''f'', File rw (lit ''hi''))])]))"
proof -
  let ?env' = "sample_env (Dir rwx [(lit ''d'', Dir rwx [(lit ''f'', File rw (lit ''hi''))])])"
  have w: "WriteFileTool_execute (sample_env (Dir rwx [])) (lit ''d/f'') (lit ''hi'')
     = (Inr (lit ''Successfully wrote 2 bytes to d/f''), ?env')"
    by (simp add: WriteFileTool_execute_def WriteFileTool_try_def run_defs)
  have p: "prefix (lit ''Successfully'') (lit ''Successfully wrote 2 bytes to d/f'')"
    by (simp add: lit_def)
  have e: "expanduser (sample_env (Dir rwx [])) (Path (lit ''d/f'')) = Inr (Path (lit ''d/f''))"
    by (simp add: run_defs)
  have s: "stat ?env' (Path (lit ''d/f'')) = Inr (File rw (lit ''hi''))"
    by (simp add: run_defs)
  from write_then_read[OF w p e s] show ?thesis by (simp add: lit_def universal_newlines_def)
qed

text \<open>The content \<^verbatim>\<open>\r\<close> is written as the byte 13 and read back as \<^verbatim>\<open>\n\<close>.\<close>

theorem carriage_return_not_read_back:
  "WriteFileTool_execute (sample_env (Dir rwx [])) (lit ''f'') [13]
     = (Inr (lit ''Successfully wrote 1 bytes to f''),
        sample_env (Dir rwx [(lit ''f'', File rw [13])]))
   \<and> ReadFileTool_execute (sample_env (Dir rwx [(lit ''f'', File rw [13])])) (lit ''f'')
     = (Inr [10], sample_env (Dir rwx [(lit ''f'', File rw [13])]))"
  by (simp add: WriteFileTool_execute_def WriteFileTool_try_def ReadFileTool_execute_def
      ReadFileTool_try_def run_defs)

text \<open>Writing to a device, and to a file that may be written but not read.\<close>

lemma write_to_device_then_read:
  "WriteFileTool_execute (sample_env (Dir rwx [(lit ''null'', Device)])) (lit ''null'') (lit ''hi'')
     = (Inr (lit ''Successfully wrote 2 bytes to null''),
        sample_env (Dir rwx [(lit ''null'', Device)]))
   \<and> ReadFileTool_execute (sample_env (Dir rwx [(lit ''null'', Device)])) (lit ''null'')
     = (Inr (lit ''Error: Not a file: null''), sample_env (Dir rwx [(lit ''null'', Device)]))"
  by (simp add: WriteFileTool_execute_def WriteFileTool_try_def ReadFileTool_execute_def
      ReadFileTool_try_def run_defs)

lemma write_only_file_then_read:
  "WriteFileTool_execute (sample_env (Dir rwx [(lit ''f'', File (Mode False True False) [])]))
       (lit ''f'') (lit ''hi'')
     = (Inr (lit ''Successfully wrote 2 bytes to f''),
        sample_env (Dir rwx [(lit ''f'', File (Mode False True False) (lit ''hi''))]))
   \<and> ReadFileTool_execute
        (sample_env (Dir rwx [(lit ''f'', File (Mode False True False) (lit ''hi''))])) (lit ''f'')
     = (Inr (lit ''Error: Permission denied: f''),
        sample_env (Dir rwx [(lit ''f'', File (Mode False True False) (lit ''hi''))]))"
  by (simp add: WriteFileTool_execute_def WriteFileTool_try_def ReadFileTool_execute_def
      ReadFileTool_try_def run_defs)

section \<open>C9: CreateDirTool\<close>




text \<open>
  Other paths where nothing exists and no directory is made: a name with the code point 0,
  a path in a directory that may not be written, and five missing levels, which need four
  nested calls, where three are left (nothing is made, since the call that is refused comes
  before the first directory is made).
\<close>

lemma CreateDirTool_null_byte:
  "exists (sample_env (Dir rwx [])) (Path (lit ''a'' @ [0] @ lit ''b'')) = Inr False
   \<and> CreateDirTool_execute (sample_env (Dir rwx [])) (lit ''a'' @ [0] @ lit ''b'')
       = (Inr (lit ''Error creating directory: ?''), sample_env (Dir rwx []))"
  by (simp add: CreateDirTool_execute_def CreateDirTool_try_def run_defs)

lemma CreateDirTool_read_only_directory:
  "exists (sample_env (Dir (Mode True False True) [])) (Path (lit ''d'')) = Inr False
   \<and> CreateDirTool_execute (sample_env (Dir (Mode True False True) [])) (lit ''d'')
       = (Inr (lit ''Error: Permission denied: d''), sample_env (Dir (Mode True False True) []))"
  by (simp add: CreateDirTool_execute_def CreateDirTool_try_def run_defs)

lemma CreateDirTool_too_deep:
  "exists (sample_env (Dir rwx [])) (Path (lit ''a/b/c/d/e'')) = Inr False
   \<and> CreateDirTool_execute (sample_env (Dir rwx [])) (lit ''a/b/c/d/e'')
       = (Inr (lit ''Error creating directory: ?''), sample_env (Dir rwx []))"
  by (simp add: CreateDirTool_execute_def CreateDirTool_try_def run_defs)

section \<open>C10: writing to the path of a directory\<close>

text \<open>
  C10.  When the path (after \<^verbatim>\<open>~\<close> expansion) is an existing directory,
  \<^verbatim>\<open>WriteFileTool.execute\<close> returns \<^verbatim>\<open>"Error writing file: "\<close> followed by the text of the
  \<^verbatim>\<open>IsADirectoryError\<close> that \<^verbatim>\<open>open\<close> raised, and the environment, so the directory and all
  that is in it, is as before: making the parent directory finds it there, and nothing is
  created or truncated.
\<close>

theorem write_to_directory:
  assumes "expanduser env (Path path) = Inr file_path" and "is_dir env file_path = Inr True"
  shows "WriteFileTool_execute env path content
     = (Inr (lit ''Error writing file: '' @ str_exn env (OSError EISDIR (str_path file_path))), env)"
proof -
  have m: "mkdir_parents (recursion_limit env) env (parent file_path) = (Inr (), env)"
    using assms(2) by (intro mkdir_parents_is_dir is_dir_parent)
  from assms(2) have "open_w env file_path = (Inl (OSError EISDIR (str_path file_path)), env)"
    by (auto simp: is_dir_True_iff open_w_def)
  then have "write_text env file_path content = (Inl (OSError EISDIR (str_path file_path)), env)"
    by (simp add: write_text_def)
  with m assms(1) show ?thesis
    by (simp add: WriteFileTool_execute_def WriteFileTool_try_def handlers_def)
qed

theorem write_to_directory_witness:
  "is_dir (sample_env (Dir rwx [(lit ''d'', Dir rwx [(lit ''f'', File rw (lit ''hi''))])]))
      (Path (lit ''d'')) = Inr True
   \<and> WriteFileTool_execute
        (sample_env (Dir rwx [(lit ''d'', Dir rwx [(lit ''f'', File rw (lit ''hi''))])]))
        (lit ''d'') (lit ''x'')
     = (Inr (lit ''Error writing file: ?''),
        sample_env (Dir rwx [(lit ''d'', Dir rwx [(lit ''f'', File rw (lit ''hi''))])]))"
proof -
  let ?env = "sample_env (Dir rwx [(lit ''d'', Dir rwx [(lit ''f'', File rw (lit ''hi''))])])"
  have e: "expanduser ?env (Path (lit ''d'')) = Inr (Path (lit ''d''))"
    by (simp add: run_defs)
  have d: "is_dir ?env (Path (lit ''d'')) = Inr True" by (simp add: run_defs)
  from write_to_directory[OF e d, of "lit ''x''"] d show ?thesis by (simp add: sample_env_def lit_def)
qed

end
